theory Spec2Isabelle
  imports Complex_Main "HOL-Library.AList"
begin

section \<open>Tensors, errors and the masking utility (model.py)\<close>

text \<open>
  A batch of token ids (a 2-D LongTensor) is a list of rows of Python integers; a dense
  tensor (batch, length, features) is a list of rows of feature vectors. Tensor elements
  are real numbers: the theory follows the mathematical meaning of the tensor operations
  (\<open>sin\<close>, \<open>cos\<close>, \<open>exp\<close>, \<open>log\<close>), not the rounding of 32-bit floats.
  A list of rows carries no column count when it has no row, so the column count of an
  empty batch reads as 0. Every exception of Python or torch is a value of \<open>error\<close>.
\<close>

datatype error = ValueError | IndexError | RuntimeError | ZeroDivisionError | FileNotFoundError

type_synonym tokens = "int list list"
type_synonym mask = "bool list list"
type_synonym vec = "real list"
type_synonym dense = "real list list list"

definition bindE :: "error + 'a \<Rightarrow> ('a \<Rightarrow> error + 'b) \<Rightarrow> error + 'b" where
  "bindE r f = (case r of Inl e \<Rightarrow> Inl e | Inr x \<Rightarrow> f x)"

text \<open>\<open>t.shape[1]\<close> of a tensor whose first axis is the batch.\<close>

definition shape1 :: "'a list list \<Rightarrow> nat" where
  "shape1 t = (case t of [] \<Rightarrow> 0 | r # _ \<Rightarrow> length r)"

text \<open>A list of rows is a tensor when all rows have the same length.\<close>

definition rect :: "'a list list \<Rightarrow> bool" where
  "rect t = list_all (\<lambda>r. length r = shape1 t) t"

text \<open>\<open>get_mask(data, padding_value=-1)\<close>: \<open>data == padding_value\<close>, elementwise.\<close>

definition get_mask :: "tokens \<Rightarrow> int \<Rightarrow> mask" where
  "get_mask data padding_value = map (map (\<lambda>x. x = padding_value)) data"

text \<open>\<open>~mask * data\<close>: the negated mask, read as 0 or 1, times the data.\<close>

definition not_mask_times :: "mask \<Rightarrow> tokens \<Rightarrow> tokens" where
  "not_mask_times msk data = map2 (map2 (\<lambda>b x. (if \<not> b then 1 else 0) * x)) msk data"

section \<open>Positional encoding\<close>

text \<open>
  \<open>torch.arange(0, d_model, 2)\<close> times \<open>-(math.log(10000.0) / d_model)\<close>, exponentiated.
  The division is Python's: it raises ZeroDivisionError when \<open>d_model\<close> is 0.
\<close>

definition div_term :: "int \<Rightarrow> vec" where
  "div_term d_model =
     map (\<lambda>k. exp (real (2 * k) * - (ln 10000 / real_of_int d_model))) [0..<(nat d_model + 1) div 2]"

text \<open>
  \<open>row[start::2] = vals\<close> on one row of the table: the k-th value goes to column
  \<open>start + 2 * k\<close>.
\<close>

fun assign_stride2 :: "nat \<Rightarrow> vec \<Rightarrow> vec \<Rightarrow> vec" where
  "assign_stride2 start [] row = row"
| "assign_stride2 start (v # vs) row = assign_stride2 (start + 2) vs (row[start := v])"

definition pe_row :: "int \<Rightarrow> nat \<Rightarrow> vec" where
  "pe_row d_model pos =
     assign_stride2 1 (map (\<lambda>w. cos (real pos * w)) (div_term d_model))
       (assign_stride2 0 (map (\<lambda>w. sin (real pos * w)) (div_term d_model))
          (replicate (nat d_model) 0))"

text \<open>
  \<open>positionalencoding1d(d_model, length)\<close>. The parity test comes first and uses
  Python's \<open>%\<close>, whose result for the divisor 2 is 0 or 1 also for a negative
  \<open>d_model\<close>. \<open>torch.zeros\<close> refuses a negative size, and the division by
  \<open>d_model\<close> refuses 0.
\<close>

definition positionalencoding1d :: "int \<Rightarrow> int \<Rightarrow> error + real list list" where
  "positionalencoding1d d_model len =
     (if d_model mod 2 \<noteq> 0 then Inl ValueError
      else if len < 0 \<or> d_model < 0 then Inl RuntimeError
      else if d_model = 0 then Inl ZeroDivisionError
      else Inr (map (pe_row d_model) [0..<nat len]))"


section \<open>The model (BaseModel)\<close>

datatype device = CPU | CUDA

text \<open>\<open>nn.Linear\<close>: \<open>y = W x + b\<close>, one row of \<open>weight\<close> per output feature.\<close>

record linear =
  weight :: "real list list"
  bias :: "real list"

definition apply_linear :: "linear \<Rightarrow> vec \<Rightarrow> vec" where
  "apply_linear l x = map2 (\<lambda>row b. sum_list (map2 (*) row x) + b) (weight l) (bias l)"

text \<open>\<open>nn.LogSoftmax(dim=-1)\<close> on one feature vector.\<close>

definition log_softmax :: "vec \<Rightarrow> vec" where
  "log_softmax x = map (\<lambda>v. v - ln (sum_list (map exp x))) x"

text \<open>
  \<open>nn.Embedding\<close>: a lookup of each id in the table; torch raises IndexError for an id
  outside \<open>0 .. num_embeddings - 1\<close> (a negative id included).
\<close>

definition embedding :: "real list list \<Rightarrow> tokens \<Rightarrow> error + dense" where
  "embedding table ids =
     (if list_all (list_all (\<lambda>i. 0 \<le> i \<and> i < int (length table))) ids
      then Inr (map (map (\<lambda>i. table ! nat i)) ids)
      else Inl IndexError)"

text \<open>
  The attributes of a \<open>BaseModel\<close>. \<open>transformer\<close> is the \<open>nn.Transformer\<close> module
  with its weights: a function of the source, the target, the causal mask (True where
  torch has \<open>-inf\<close>) and the two key padding masks. \<open>param_device\<close> is the device on
  which torch holds the parameters of the module (changed by \<open>nn.Module.to\<close>),
  \<open>pe_device\<close> the device of the tensor \<open>self.pe\<close>, which is a plain attribute and no
  parameter.
\<close>

record model =
  device :: device
  param_device :: device
  board_embed :: "real list list"
  move_embed :: "real list list"
  pe :: "real list list"
  pe_device :: device
  transformer :: "dense \<Rightarrow> dense \<Rightarrow> mask \<Rightarrow> mask \<Rightarrow> mask \<Rightarrow> error + dense"
  to_emb_board :: linear
  to_emb_move :: linear
  to_dist :: linear
  start_token :: tokens

text \<open>
  \<open>BaseModel.__init__\<close>, given the torch modules as torch has initialised them (their
  initial weights are random). The modules are created on the CPU; the positional table
  has 1024 rows and is moved to \<open>device\<close>.
\<close>

definition BaseModel_init ::
  "device \<Rightarrow> real list list \<Rightarrow> real list list \<Rightarrow>
   (dense \<Rightarrow> dense \<Rightarrow> mask \<Rightarrow> mask \<Rightarrow> mask \<Rightarrow> error + dense) \<Rightarrow>
   linear \<Rightarrow> linear \<Rightarrow> linear \<Rightarrow> int \<Rightarrow> int \<Rightarrow> error + model" where
  "BaseModel_init dev board_table move_table tr emb_board emb_move dst emb_dim start_id =
     bindE (positionalencoding1d emb_dim 1024) (\<lambda>table.
       Inr \<lparr>device = dev, param_device = CPU, board_embed = board_table,
            move_embed = move_table, pe = table, pe_device = dev, transformer = tr,
            to_emb_board = emb_board, to_emb_move = emb_move, to_dist = dst,
            start_token = [[start_id]]\<rparr>)"

text \<open>\<open>nn.Module.to(device)\<close>: moves the parameters; \<open>self.pe\<close> stays where it is.\<close>

definition module_to :: "device \<Rightarrow> model \<Rightarrow> model" where
  "module_to dev m = m\<lparr>param_device := dev\<rparr>"

text \<open>
  What a decode or forward call can touch: the model object, the state of torch's random
  number generator, and \<open>calls\<close>, a record of the calls of \<open>_state_embed\<close>,
  \<open>_action_embed\<close> and \<open>_transformer_pass\<close> in the order the code makes them. No
  value the code computes depends on \<open>calls\<close>.
\<close>

datatype call =
    StateEmbedCall tokens
  | ActionEmbedCall tokens
  | TransformerPassCall dense dense mask mask

record 'g world =
  self :: model
  rng :: 'g
  calls :: "call list"

text \<open>
  \<open>_encode_position\<close>. \<open>data\<close> is the output of the embedding modules, so it lives on
  \<open>param_device\<close>. \<open>data + self.pe[:L]\<close> broadcasts over the batch when the slice has
  \<open>L\<close> rows and raises otherwise (the table has fewer than \<open>L\<close> rows).
\<close>

definition encode_position :: "dense \<Rightarrow> 'g world \<Rightarrow> error + dense \<times> 'g world" where
  "encode_position data w =
     (let w1 = (if pe_device (self w) \<noteq> param_device (self w)
                then w\<lparr>self := (self w)\<lparr>pe_device := param_device (self w)\<rparr>\<rparr> else w);
          sl = take (shape1 data) (pe (self w1))
      in if length sl = shape1 data
         then Inr (map (\<lambda>row. map2 (map2 (+)) row sl) data, w1)
         else Inl RuntimeError)"

text \<open>
  \<open>_state_embed\<close> and \<open>_action_embed\<close>. The ids are moved to \<open>self.device\<close>; the
  embedding module raises when its weights are on another device.
\<close>

definition state_embed :: "tokens \<Rightarrow> 'g world \<Rightarrow> error + dense \<times> 'g world" where
  "state_embed state w0 =
     (let w = w0\<lparr>calls := calls w0 @ [StateEmbedCall state]\<rparr>; m = self w in
      if device m \<noteq> param_device m then Inl RuntimeError
      else bindE (embedding (board_embed m) state) (\<lambda>e.
             encode_position (map (map (apply_linear (to_emb_board m))) e) w))"

definition action_embed :: "tokens \<Rightarrow> 'g world \<Rightarrow> error + dense \<times> 'g world" where
  "action_embed action w0 =
     (let w = w0\<lparr>calls := calls w0 @ [ActionEmbedCall action]\<rparr>; m = self w in
      if device m \<noteq> param_device m then Inl RuntimeError
      else bindE (embedding (move_embed m) action) (\<lambda>e.
             encode_position (map (map (apply_linear (to_emb_move m))) e) w))"

text \<open>\<open>generate_square_subsequent_mask(n)\<close>: masked strictly above the diagonal.\<close>

definition generate_square_subsequent_mask :: "nat \<Rightarrow> mask" where
  "generate_square_subsequent_mask n = map (\<lambda>i. map (\<lambda>j. i < j) [0..<n]) [0..<n]"

definition transformer_pass ::
  "dense \<Rightarrow> dense \<Rightarrow> mask \<Rightarrow> mask \<Rightarrow> 'g world \<Rightarrow> error + dense \<times> 'g world" where
  "transformer_pass src tgt src_padding_mask tgt_padding_mask w0 =
     (let w = w0\<lparr>calls := calls w0 @
                 [TransformerPassCall src tgt src_padding_mask tgt_padding_mask]\<rparr>;
          tgt_mask = generate_square_subsequent_mask (shape1 tgt)
      in bindE (transformer (self w) src tgt tgt_mask src_padding_mask tgt_padding_mask)
           (\<lambda>out. Inr (out, w)))"

text \<open>\<open>self.to_dist\<close>: the output projection and the log-softmax, at every position.\<close>

definition apply_to_dist :: "model \<Rightarrow> dense \<Rightarrow> dense" where
  "apply_to_dist m out = map (map (\<lambda>h. log_softmax (apply_linear (to_dist m) h))) out"

text \<open>\<open>forward\<close>: \<open>logits[:, :-1, :]\<close> drops the last position of every batch element.\<close>

definition forward :: "tokens \<Rightarrow> tokens \<Rightarrow> 'g world \<Rightarrow> error + dense \<times> 'g world" where
  "forward state action w =
     (let msk = get_mask state (- 1); tgt_mask = get_mask action (- 1) in
      bindE (state_embed (not_mask_times msk state) w) (\<lambda>(pos_embed_state, w1).
      bindE (action_embed (not_mask_times tgt_mask action) w1) (\<lambda>(tgt_embed, w2).
      bindE (transformer_pass pos_embed_state tgt_embed msk tgt_mask w2) (\<lambda>(out, w3).
        Inr (map butlast (apply_to_dist (self w3) out), w3)))))"

section \<open>The autoregressive decoder\<close>

text \<open>\<open>for x in xs: s = body(x, s)\<close>, stopping at the first exception.\<close>

fun for_each :: "'a list \<Rightarrow> ('a \<Rightarrow> 's \<Rightarrow> error + 's) \<Rightarrow> 's \<Rightarrow> error + 's" where
  "for_each [] body s = Inr s"
| "for_each (x # xs) body s = bindE (body x s) (for_each xs body)"

text \<open>\<open>torch.cat((a, b), dim=1)\<close>: the batch sizes must agree.\<close>

definition cat1 :: "'a list list \<Rightarrow> 'a list list \<Rightarrow> error + 'a list list" where
  "cat1 a b = (if length a = length b then Inr (map2 (@) a b) else Inl RuntimeError)"

text \<open>\<open>t[:, -1, :]\<close>: the last position; IndexError when there is no position.\<close>

definition last_position :: "dense \<Rightarrow> error + vec list" where
  "last_position t = (if list_all (\<lambda>r. r \<noteq> []) t then Inr (map last t) else Inl IndexError)"

text \<open>
  \<open>torch.argmax\<close> along the vocabulary: the index of the first maximal value. The scan
  keeps the best index so far and replaces it only by a strictly greater value.
\<close>

fun argmax_scan :: "nat \<Rightarrow> real \<Rightarrow> nat \<Rightarrow> vec \<Rightarrow> nat" where
  "argmax_scan best_i best_v i [] = best_i"
| "argmax_scan best_i best_v i (x # xs) =
     (if best_v < x then argmax_scan i x (Suc i) xs else argmax_scan best_i best_v (Suc i) xs)"

definition argmax :: "vec \<Rightarrow> nat" where
  "argmax xs = (case xs of [] \<Rightarrow> 0 | x # r \<Rightarrow> argmax_scan 0 x 1 r)"

text \<open>
  The two selection policies. \<open>.view(-1, 1)\<close> makes one row of one id per batch
  element. \<open>argmax\<close> raises on an empty vocabulary axis. The sampler is torch's
  \<open>Categorical(logits=logits).sample()\<close>: it reads and advances the generator.
\<close>

definition max_action_sel :: "vec list \<Rightarrow> 'g \<Rightarrow> error + tokens \<times> 'g" where
  "max_action_sel logits g =
     (if list_all (\<lambda>r. r \<noteq> []) logits then Inr (map (\<lambda>r. [int (argmax r)]) logits, g)
      else Inl IndexError)"

definition sample_action_sel ::
  "(vec list \<Rightarrow> 'g \<Rightarrow> error + int list \<times> 'g) \<Rightarrow> vec list \<Rightarrow> 'g \<Rightarrow> error + tokens \<times> 'g" where
  "sample_action_sel sampler logits g =
     bindE (sampler logits g) (\<lambda>(ids, g'). Inr (map (\<lambda>i. [i]) ids, g'))"

text \<open>One iteration of the loop of \<open>_inference\<close>; the loop variable is not used.\<close>

definition decode_step ::
  "dense \<Rightarrow> mask \<Rightarrow> (vec list \<Rightarrow> 'g \<Rightarrow> error + tokens \<times> 'g) \<Rightarrow> nat \<Rightarrow>
   tokens \<times> 'g world \<Rightarrow> error + tokens \<times> 'g world" where
  "decode_step pos_embed_state msk action_sel i tw =
     (case tw of (toks, w) \<Rightarrow>
      bindE (action_embed toks w) (\<lambda>(decode, w1).
      let tgt_mask = replicate (length decode) (replicate (shape1 decode) False) in
      bindE (transformer_pass pos_embed_state decode msk tgt_mask w1) (\<lambda>(out, w2).
      bindE (last_position (apply_to_dist (self w2) out)) (\<lambda>logits.
      bindE (action_sel logits (rng w2)) (\<lambda>(next_value, g).
      let w3 = w2\<lparr>rng := g\<rparr> in
      bindE (cat1 toks next_value) (\<lambda>toks'.
      bindE (embedding (move_embed (self w3)) next_value) (\<lambda>e.
      let embed_next = map (map (apply_linear (to_emb_move (self w3)))) e in
      bindE (cat1 decode embed_next) (\<lambda>decode'. Inr (toks', w3)))))))))"

text \<open>
  \<open>_inference\<close>. \<open>start_token.repeat(B, 1)\<close> repeats the rows of the start token
  \<open>B\<close> times; \<open>range(max_len)\<close> is empty for a negative \<open>max_len\<close>.
\<close>

definition inference' ::
  "tokens \<Rightarrow> int \<Rightarrow> (vec list \<Rightarrow> 'g \<Rightarrow> error + tokens \<times> 'g) \<Rightarrow> 'g world \<Rightarrow>
   error + tokens \<times> 'g world" where
  "inference' state max_len action_sel w =
     (let msk = get_mask state (- 1) in
      bindE (state_embed (not_mask_times msk state) w) (\<lambda>(pos_embed_state, w1).
        let toks = concat (replicate (length state) (start_token (self w1))) in
        for_each [0..<nat max_len] (decode_step pos_embed_state msk action_sel) (toks, w1)))"

definition inference :: "tokens \<Rightarrow> int \<Rightarrow> 'g world \<Rightarrow> error + tokens \<times> 'g world" where
  "inference state max_len w = inference' state max_len max_action_sel w"

definition sample ::
  "(vec list \<Rightarrow> 'g \<Rightarrow> error + int list \<times> 'g) \<Rightarrow> tokens \<Rightarrow> int \<Rightarrow> 'g world \<Rightarrow>
   error + tokens \<times> 'g world" where
  "sample sampler state max_len w = inference' state max_len (sample_action_sel sampler) w"


section \<open>The training loop of train.py\<close>

text \<open>
  The collaborators of \<open>main\<close> that are not part of this code: the freshly built model
  and optimizer, \<open>eval_model\<close>, one gradient step (\<open>zero_grad\<close>, the forward pass, the
  loss, \<open>backward\<close>, \<open>opt.step\<close>, \<open>loss.item\<close>), the batches the shuffling
  \<open>DataLoader\<close> yields in each pass, and the readings of \<open>time.time()\<close>.
\<close>

record ('p, 'o, 'b) env =
  new_model :: 'p
  new_opt :: "'p \<Rightarrow> 'o"
  eval_model :: "'p \<Rightarrow> real \<times> real"
  train_batch :: "'p \<Rightarrow> 'o \<Rightarrow> 'b \<Rightarrow> 'p \<times> 'o \<times> real"
  dataloader :: "nat \<Rightarrow> 'b list"
  time :: "nat \<Rightarrow> real"

text \<open>
  A line of the log file, by its fields, and a line of the standard output, by the values
  it prints (the formatting of numbers is not modelled).
\<close>

datatype log_line = TEST int real real | TRAIN nat nat real real

datatype out_line = PrintTest int real real | PrintLoss nat nat real

text \<open>A file holds a model state dict, an optimizer state dict, or the lines of a log.\<close>

datatype ('p, 'o) content = ModelState 'p | OptState 'o | LogText "log_line list"

type_synonym ('p, 'o) files = "(string \<times> ('p, 'o) content) list"

record ('p, 'o) train_state =
  files :: "('p, 'o) files"
  model_params :: 'p
  opt_state :: 'o
  log_path :: string
  log_lines :: "log_line list"
  losses :: "real list"
  stdout :: "out_line list"
  clock :: nat

text \<open>Python's \<open>str\<close> of a natural number, for the f-string \<open>model_{epoch}.pth\<close>.\<close>

definition digit :: "nat \<Rightarrow> char" where
  "digit d = ''0123456789'' ! d"

fun str_nat :: "nat \<Rightarrow> string" where
  "str_nat n = (if n < 10 then [digit n] else str_nat (n div 10) @ [digit (n mod 10)])"

definition model_file :: "nat \<Rightarrow> string" where
  "model_file epoch = ''model_'' @ str_nat epoch @ ''.pth''"

definition opt_file :: string where
  "opt_file = ''opt.pth''"

text \<open>\<open>torch.load\<close>, the two \<open>load_state_dict\<close>, \<open>torch.save\<close>.\<close>

definition torch_load :: "('p, 'o) files \<Rightarrow> string \<Rightarrow> error + ('p, 'o) content" where
  "torch_load fs path = (case map_of fs path of None \<Rightarrow> Inl FileNotFoundError | Some c \<Rightarrow> Inr c)"

definition model_load_state_dict :: "('p, 'o) content \<Rightarrow> error + 'p" where
  "model_load_state_dict c = (case c of ModelState p \<Rightarrow> Inr p | _ \<Rightarrow> Inl RuntimeError)"

definition opt_load_state_dict :: "('p, 'o) content \<Rightarrow> error + 'o" where
  "opt_load_state_dict c = (case c of OptState ob \<Rightarrow> Inr ob | _ \<Rightarrow> Inl ValueError)"

definition torch_save ::
  "string \<Rightarrow> ('p, 'o) content \<Rightarrow> ('p, 'o) train_state \<Rightarrow> ('p, 'o) train_state" where
  "torch_save path c s = s\<lparr>files := AList.update path c (files s)\<rparr>"

text \<open>\<open>if load_model:\<close> is false for \<open>None\<close> and for the empty string.\<close>

definition truthy :: "string option \<Rightarrow> bool" where
  "truthy a = (case a of None \<Rightarrow> False | Some p \<Rightarrow> p \<noteq> [])"

text \<open>
  \<open>log_file.write\<close>: the line goes to the end of what was written through the handle
  since \<open>open(log_file_path, "w")\<close>.
\<close>

definition log_write :: "log_line \<Rightarrow> ('p, 'o) train_state \<Rightarrow> ('p, 'o) train_state" where
  "log_write line s =
     (let ls = log_lines s @ [line]
      in s\<lparr>log_lines := ls, files := AList.update (log_path s) (LogText ls) (files s)\<rparr>)"

text \<open>\<open>deque(maxlen=n).append\<close> and \<open>np.mean\<close>.\<close>

definition deque_append :: "nat \<Rightarrow> 'a \<Rightarrow> 'a list \<Rightarrow> 'a list" where
  "deque_append n x q = (let q' = q @ [x] in drop (length q' - n) q')"

definition mean :: "real list \<Rightarrow> real" where
  "mean xs = sum_list xs / real (length xs)"

text \<open>
  \<open>main\<close> up to the epoch loop: the model, the optimizer, the optional loading of both,
  and \<open>open(log_file_path, "w")\<close>, which leaves an empty file at the path.
\<close>

definition main_startup ::
  "('p, 'o, 'b) env \<Rightarrow> string \<Rightarrow> string option \<Rightarrow> string option \<Rightarrow> ('p, 'o) files \<Rightarrow>
   error + ('p, 'o) train_state" where
  "main_startup ev log_file_path load_model load_opt fs =
     bindE (case load_model of
              Some p \<Rightarrow> if truthy load_model
                         then bindE (torch_load fs p) model_load_state_dict
                         else Inr (new_model ev)
            | None \<Rightarrow> Inr (new_model ev)) (\<lambda>mp.
     bindE (case load_opt of
              Some p \<Rightarrow> if truthy load_opt
                         then bindE (torch_load fs p) opt_load_state_dict
                         else Inr (new_opt ev mp)
            | None \<Rightarrow> Inr (new_opt ev mp)) (\<lambda>os.
       Inr \<lparr>files = AList.update log_file_path (LogText []) fs, model_params = mp,
            opt_state = os, log_path = log_file_path, log_lines = [], losses = [],
            stdout = [], clock = 0\<rparr>))"

text \<open>The body of \<open>for (batch_idx, (s, a)) in enumerate(dataloader)\<close>.\<close>

definition train_step ::
  "('p, 'o, 'b) env \<Rightarrow> nat \<Rightarrow> nat \<times> 'b \<Rightarrow> ('p, 'o) train_state \<Rightarrow> ('p, 'o) train_state" where
  "train_step ev epoch ib s =
     (case ib of (batch_idx, batch) \<Rightarrow>
      case train_batch ev (model_params s) (opt_state s) batch of (mp, os, loss) \<Rightarrow>
      let s1 = s\<lparr>model_params := mp, opt_state := os,
                 losses := deque_append 1000 loss (losses s)\<rparr>;
          s2 = (if batch_idx > 0 \<and> batch_idx mod 100 = 0
                then s1\<lparr>stdout := stdout s1 @ [PrintLoss epoch batch_idx (mean (losses s1))]\<rparr>
                else s1)
      in log_write (TRAIN epoch batch_idx (time ev (clock s2)) loss)
           (s2\<lparr>clock := Suc (clock s2)\<rparr>))"

text \<open>The body of \<open>for epoch in range(1000)\<close>.\<close>

definition train_epoch ::
  "('p, 'o, 'b) env \<Rightarrow> nat \<Rightarrow> ('p, 'o) train_state \<Rightarrow> ('p, 'o) train_state" where
  "train_epoch ev epoch s =
     (case eval_model ev (model_params s) of (acc, loss) \<Rightarrow>
      let s1 = s\<lparr>stdout := stdout s @ [PrintTest (int epoch - 1) acc loss]\<rparr>;
          s2 = log_write (TEST (int epoch - 1) (time ev (clock s1)) acc)
                 (s1\<lparr>clock := Suc (clock s1)\<rparr>);
          s3 = fold (train_step ev epoch) (enumerate 0 (dataloader ev epoch)) s2;
          s4 = torch_save (model_file epoch) (ModelState (model_params s3)) s3
      in torch_save opt_file (OptState (opt_state s4)) s4)"

text \<open>
  The state of \<open>main\<close> when the first \<open>E\<close> iterations of the epoch loop are complete
  (\<open>E\<close> is at most 1000, the bound of the loop).
\<close>

definition main_epochs ::
  "('p, 'o, 'b) env \<Rightarrow> string \<Rightarrow> string option \<Rightarrow> string option \<Rightarrow> ('p, 'o) files \<Rightarrow> nat \<Rightarrow>
   error + ('p, 'o) train_state" where
  "main_epochs ev log_file_path load_model load_opt fs E =
     bindE (main_startup ev log_file_path load_model load_opt fs)
       (\<lambda>s. Inr (fold (train_epoch ev) [0..<E] s))"

section \<open>The training loop of train/gpt.py\<close>

text \<open>
  \<open>GPTTrainingContext\<close>. \<open>train_fn\<close> stands for one gradient step (\<open>zero_grad\<close>,
  \<open>train_fn\<close>, \<open>backward\<close>, \<open>opt.step\<close>, \<open>loss.item\<close>), \<open>train_dl\<close> gives the
  batches of each pass. The trace records the calls of the collaborators (\<open>Logger\<close>,
  \<open>eval_fn\<close>, \<open>train_fn\<close>) in the order the code makes them, with the batch index.
\<close>

record ('p, 'o, 'b) GPTTrainingContext =
  eval_fn :: "'p \<Rightarrow> real \<times> real"
  train_fn :: "'p \<Rightarrow> 'o \<Rightarrow> 'b \<Rightarrow> 'p \<times> 'o \<times> real"
  train_dl :: "nat \<Rightarrow> 'b list"
  epochs :: int
  eval_freq :: int

datatype gpt_call =
    LoggerEpoch
  | EvalFn
  | LoggerTestOutput
  | LoggerSaveCheckpoint
  | TrainFn nat
  | LoggerLoss nat nat

record ('p, 'o) gpt_state =
  gpt_model :: 'p
  gpt_opt :: 'o
  trace :: "gpt_call list"

text \<open>
  \<open>out = self.eval_fn(...); Logger.test_output(*out); Logger.save_checkpoint(model, opt)\<close>
\<close>

definition evaluate :: "('p, 'o) gpt_state \<Rightarrow> ('p, 'o) gpt_state" where
  "evaluate s = s\<lparr>trace := trace s @ [EvalFn, LoggerTestOutput, LoggerSaveCheckpoint]\<rparr>"

text \<open>
  The body of the batch loop. \<open>batch_idx % self.eval_freq\<close> is evaluated before
  \<open>batch_idx > 0\<close> and raises ZeroDivisionError when \<open>eval_freq\<close> is 0.
\<close>

definition gpt_batch ::
  "('p, 'o, 'b) GPTTrainingContext \<Rightarrow> nat \<Rightarrow> nat \<times> 'b \<Rightarrow> ('p, 'o) gpt_state \<Rightarrow>
   error + ('p, 'o) gpt_state" where
  "gpt_batch ctx len ib s =
     (case ib of (batch_idx, batch) \<Rightarrow>
      case train_fn ctx (gpt_model s) (gpt_opt s) batch of (mp, os, loss) \<Rightarrow>
      let s1 = s\<lparr>gpt_model := mp, gpt_opt := os,
                 trace := trace s @ [TrainFn batch_idx, LoggerLoss batch_idx len]\<rparr>
      in if eval_freq ctx = 0 then Inl ZeroDivisionError
         else if int batch_idx mod eval_freq ctx = 0 \<and> batch_idx > 0 then Inr (evaluate s1)
         else Inr s1)"

definition gpt_epoch ::
  "('p, 'o, 'b) GPTTrainingContext \<Rightarrow> nat \<Rightarrow> ('p, 'o) gpt_state \<Rightarrow> error + ('p, 'o) gpt_state" where
  "gpt_epoch ctx epoch s =
     (let s1 = evaluate (s\<lparr>trace := trace s @ [LoggerEpoch]\<rparr>);
          batches = train_dl ctx epoch
      in bindE (for_each (enumerate 0 batches) (gpt_batch ctx (length batches)) s1)
           (\<lambda>s2. Inr (evaluate s2)))"

text \<open>\<open>GPTTrainingContext.__call__(model, opt)\<close>.\<close>

definition gpt_call_ctx ::
  "('p, 'o, 'b) GPTTrainingContext \<Rightarrow> 'p \<Rightarrow> 'o \<Rightarrow> error + ('p, 'o) gpt_state" where
  "gpt_call_ctx ctx mdl opt =
     for_each [0..<nat (epochs ctx)] (gpt_epoch ctx) \<lparr>gpt_model = mdl, gpt_opt = opt, trace = []\<rparr>"

section \<open>What the constructor and torch guarantee\<close>

text \<open>
  The shapes \<open>BaseModel.__init__\<close> gives the modules for the working dimension \<open>d\<close>:
  embedding tables of width 8, \<open>Linear(8, d)\<close> twice, \<open>Linear(d, V)\<close> with \<open>V\<close> the
  number of rows of the move table, a positional table of width \<open>d\<close>.
\<close>

definition linear_ok :: "nat \<Rightarrow> nat \<Rightarrow> linear \<Rightarrow> bool" where
  "linear_ok n_in n_out l =
     (length (weight l) = n_out \<and> length (bias l) = n_out \<and>
      list_all (\<lambda>r. length r = n_in) (weight l))"

definition features :: "nat \<Rightarrow> dense \<Rightarrow> bool" where
  "features d t = list_all (list_all (\<lambda>v. length v = d)) t"

definition same_shape :: "'a list list \<Rightarrow> 'b list list \<Rightarrow> bool" where
  "same_shape a b = list_all2 (\<lambda>x y. length x = length y) a b"

text \<open>
  The inputs \<open>nn.Transformer\<close> (with \<open>batch_first=True\<close> and \<open>d_model = d\<close>) accepts:
  equal batch sizes, feature width \<open>d\<close>, at least one source and one target position,
  the causal mask of the target length, padding masks of the shapes of source and target.
\<close>

definition transformer_input_ok ::
  "nat \<Rightarrow> dense \<Rightarrow> dense \<Rightarrow> mask \<Rightarrow> mask \<Rightarrow> mask \<Rightarrow> bool" where
  "transformer_input_ok d src tgt tgt_mask src_padding_mask tgt_padding_mask =
     (length src = length tgt \<and> features d src \<and> features d tgt \<and> rect src \<and> rect tgt \<and>
      0 < shape1 src \<and> 0 < shape1 tgt \<and>
      tgt_mask = generate_square_subsequent_mask (shape1 tgt) \<and>
      same_shape src_padding_mask src \<and> same_shape tgt_padding_mask tgt)"

text \<open>
  The contract of \<open>nn.Transformer\<close> the theory relies on: whatever it returns has the
  batch size and the length of the target and feature width \<open>d\<close>, and it raises only on
  inputs it does not accept.
\<close>

definition transformer_ok ::
  "nat \<Rightarrow> (dense \<Rightarrow> dense \<Rightarrow> mask \<Rightarrow> mask \<Rightarrow> mask \<Rightarrow> error + dense) \<Rightarrow> bool" where
  "transformer_ok d tr =
     (\<forall>src tgt tm sm tpm.
        case tr src tgt tm sm tpm of
          Inr out \<Rightarrow> same_shape out tgt \<and> features d out
        | Inl e \<Rightarrow> \<not> transformer_input_ok d src tgt tm sm tpm)"

definition model_ok :: "nat \<Rightarrow> model \<Rightarrow> bool" where
  "model_ok d m =
     (list_all (\<lambda>r. length r = 8) (board_embed m) \<and>
      list_all (\<lambda>r. length r = 8) (move_embed m) \<and>
      linear_ok 8 d (to_emb_board m) \<and> linear_ok 8 d (to_emb_move m) \<and>
      linear_ok d (length (move_embed m)) (to_dist m) \<and>
      list_all (\<lambda>r. length r = d) (pe m) \<and>
      transformer_ok d (transformer m))"

text \<open>\<open>model.parameters()\<close>: the learned tensors of the five modules and the transformer.\<close>

definition parameters ::
  "model \<Rightarrow> real list list \<times> real list list \<times> linear \<times> linear \<times> linear \<times>
     (dense \<Rightarrow> dense \<Rightarrow> mask \<Rightarrow> mask \<Rightarrow> mask \<Rightarrow> error + dense)" where
  "parameters m =
     (board_embed m, move_embed m, to_emb_board m, to_emb_move m, to_dist m, transformer m)"

text \<open>Two states of a model object that differ at most in where \<open>self.pe\<close> lives.\<close>

definition same_weights :: "model \<Rightarrow> model \<Rightarrow> bool" where
  "same_weights m m' = (m' = m\<lparr>pe_device := pe_device m'\<rparr>)"

text \<open>The ids a vocabulary of \<open>width\<close> tokens admits in a batch: a token or the sentinel.\<close>

definition ids_ok :: "nat \<Rightarrow> tokens \<Rightarrow> bool" where
  "ids_ok width t = list_all (list_all (\<lambda>i. i = - 1 \<or> (0 \<le> i \<and> i < int width))) t"

section \<open>A small model\<close>

text \<open>
  A model as \<open>BaseModel(cpu, input_rep, output_rep, emb_dim=8)\<close> builds it for two
  vocabularies of two tokens, with all weights 0 except the bias of the output
  projection, and a stand-in for the transformer that returns its target.
\<close>

definition toy_transformer ::
  "nat \<Rightarrow> dense \<Rightarrow> dense \<Rightarrow> mask \<Rightarrow> mask \<Rightarrow> mask \<Rightarrow> error + dense" where
  "toy_transformer d src tgt tm sm tpm =
     (if length src = length tgt \<and> features d src \<and> features d tgt then Inr tgt
      else Inl RuntimeError)"

definition zero_linear :: "nat \<Rightarrow> nat \<Rightarrow> linear" where
  "zero_linear n_in n_out = \<lparr>weight = replicate n_out (replicate n_in 0), bias = replicate n_out 0\<rparr>"

definition toy_dist :: linear where
  "toy_dist = \<lparr>weight = replicate 2 (replicate 8 0), bias = [0, 1]\<rparr>"

definition toy_table :: "real list list" where
  "toy_table = replicate 2 (replicate 8 0)"

definition toy_model :: model where
  "toy_model =
     \<lparr>device = CPU, param_device = CPU, board_embed = toy_table, move_embed = toy_table,
      pe = map (pe_row 8) [0..<1024], pe_device = CPU, transformer = toy_transformer 8,
      to_emb_board = zero_linear 8 8, to_emb_move = zero_linear 8 8, to_dist = toy_dist,
      start_token = [[0]]\<rparr>"

definition toy_world :: "nat world" where
  "toy_world = \<lparr>self = toy_model, rng = 0, calls = []\<rparr>"

text \<open>The same model after \<open>self.pe\<close> has been moved to another device from outside.\<close>

definition moved_world :: "nat world" where
  "moved_world = \<lparr>self = toy_model\<lparr>pe_device := CUDA\<rparr>, rng = 0, calls = []\<rparr>"

section \<open>Notions used to state the properties of the decoder\<close>


text \<open>The arguments of the recorded calls, by method.\<close>

fun state_embed_args :: "call \<Rightarrow> tokens list" where
  "state_embed_args (StateEmbedCall t) = [t]"
| "state_embed_args _ = []"


fun pass_sources :: "call \<Rightarrow> dense list" where
  "pass_sources (TransformerPassCall src tgt sm tpm) = [src]"
| "pass_sources _ = []"

text \<open>
  The contract of the sampler the theory relies on for \<open>sample\<close>: it draws one id of
  the vocabulary for every row of logits.
\<close>

definition sampler_ok :: "(vec list \<Rightarrow> 'g \<Rightarrow> error + int list \<times> 'g) \<Rightarrow> bool" where
  "sampler_ok sampler =
     (\<forall>logits g. list_all (\<lambda>r. r \<noteq> []) logits \<longrightarrow>
        (\<exists>ids g'. sampler logits g = Inr (ids, g') \<and> length ids = length logits \<and>
           list_all2 (\<lambda>i r. 0 \<le> i \<and> i < int (length r)) ids logits))"

text \<open>A sampler that always draws the last id of the vocabulary and counts its calls.\<close>

definition toy_sampler :: "vec list \<Rightarrow> nat \<Rightarrow> error + int list \<times> nat" where
  "toy_sampler logits g = Inr (map (\<lambda>r. int (length r) - 1) logits, Suc g)"


text \<open>
  A selection policy that, on logits over a vocabulary of \<open>v\<close> tokens, returns one id of
  the vocabulary for every row.
\<close>

definition sel_in_vocab :: "nat \<Rightarrow> (vec list \<Rightarrow> 'g \<Rightarrow> error + tokens \<times> 'g) \<Rightarrow> bool" where
  "sel_in_vocab v sel =
     (\<forall>logits g. list_all (\<lambda>r. length r = v) logits \<longrightarrow>
        (\<exists>next g'. sel logits g = Inr (next, g') \<and> length next = length logits \<and>
           list_all (\<lambda>r. \<exists>i. r = [i] \<and> 0 \<le> i \<and> i < int v) next))"


section \<open>Notions used to state the properties of the training loops\<close>

text \<open>A line of the log without its measured values.\<close>

datatype line_kind = TestLine int | TrainLine nat nat

fun kind :: "log_line \<Rightarrow> line_kind" where
  "kind (TEST e t acc) = TestLine e"
| "kind (TRAIN e i t loss) = TrainLine e i"

text \<open>
  The calls of one batch and of one epoch of \<open>GPTTrainingContext\<close>, as a schedule: an
  evaluation (with its logging and checkpoint) at the start of the epoch, after every
  training step whose batch index is positive and divisible by \<open>eval_freq\<close>, and at the
  end of the epoch.
\<close>

definition evaluation_calls :: "gpt_call list" where
  "evaluation_calls = [EvalFn, LoggerTestOutput, LoggerSaveCheckpoint]"

definition batch_calls :: "int \<Rightarrow> nat \<Rightarrow> nat \<Rightarrow> gpt_call list" where
  "batch_calls freq len i =
     [TrainFn i, LoggerLoss i len] @
     (if 0 < i \<and> int i mod freq = 0 then evaluation_calls else [])"

definition epoch_calls :: "int \<Rightarrow> nat \<Rightarrow> gpt_call list" where
  "epoch_calls freq len =
     [LoggerEpoch] @ evaluation_calls @ concat (map (batch_calls freq len) [0..<len]) @
     evaluation_calls"

section \<open>A small training run\<close>

text \<open>
  Collaborators over natural numbers: a batch is a number, a gradient step adds it to the
  parameters and counts the steps in the optimizer, every pass yields the batches 1 and 2.
\<close>

definition toy_env :: "(nat, nat, nat) env" where
  "toy_env =
     \<lparr>new_model = 0, new_opt = (\<lambda>p. 0), eval_model = (\<lambda>p. (real p, 0)),
      train_batch = (\<lambda>p ob b. (p + b, Suc ob, real b)), dataloader = (\<lambda>e. [1, 2]),
      time = real\<rparr>"

text \<open>The directory a previous run of two epochs left behind.\<close>

definition old_files :: "(nat, nat) files" where
  "old_files =
     [(''log.txt'', LogText [TEST (- 1) 0 0, TRAIN 0 0 1 1]),
      (''model_0.pth'', ModelState 3), (''opt.pth'', OptState 2)]"

definition toy_ctx :: "(nat, nat, nat) GPTTrainingContext" where
  "toy_ctx =
     \<lparr>eval_fn = (\<lambda>p. (real p, 0)), train_fn = (\<lambda>p ob b. (p + b, Suc ob, real b)),
      train_dl = (\<lambda>e. [1, 2, 3]), epochs = 1, eval_freq = 2\<rparr>"

section \<open>Properties of the positional encoding\<close>

lemma length_assign_stride2: "length (assign_stride2 s vs row) = length row"
  by (induction vs arbitrary: s row) auto

lemma nth_assign_stride2:
  "j < length row \<Longrightarrow>
   assign_stride2 s vs row ! j =
     (if s \<le> j \<and> even (j - s) \<and> (j - s) div 2 < length vs then vs ! ((j - s) div 2) else row ! j)"
proof (induction vs arbitrary: s row)
  case Nil
  then show ?case by simp
next
  case (Cons v vs)
  have IH: "assign_stride2 (s + 2) vs (row[s := v]) ! j =
     (if s + 2 \<le> j \<and> even (j - (s + 2)) \<and> (j - (s + 2)) div 2 < length vs
      then vs ! ((j - (s + 2)) div 2) else row[s := v] ! j)"
    using Cons.prems by (intro Cons.IH) simp
  show ?case
  proof (cases "j = s")
    case True
    then show ?thesis using Cons.prems IH by simp
  next
    case False
    show ?thesis
    proof (cases "s + 2 \<le> j \<and> even (j - (s + 2))")
      case True
      from True have "even (j - (s + 2))" ..
      then obtain q where "j - (s + 2) = 2 * q" by (rule evenE)
      with True have q: "j = s + 2 + 2 * q" by arith
      then have "(j - s) div 2 = Suc q" "(j - (s + 2)) div 2 = q" "even (j - s)" "s \<le> j"
        by simp_all
      then show ?thesis using True IH by simp
    next
      case F2: False
      have "\<not> (s \<le> j \<and> even (j - s))"
      proof
        assume a: "s \<le> j \<and> even (j - s)"
        then have "even (j - s)" ..
        then obtain q where "j - s = 2 * q" by (rule evenE)
        with a False have "j = s + 2 + 2 * (q - 1)" by arith
        then have "s + 2 \<le> j" "j - (s + 2) = 2 * (q - 1)" by arith+
        then have "s + 2 \<le> j \<and> even (j - (s + 2))" by (simp del: add_2_eq_Suc add_2_eq_Suc')
        then show False using F2 by blast
      qed
      then show ?thesis using F2 IH False by auto
    qed
  qed
qed

lemma even_nat_dim: "0 \<le> d \<Longrightarrow> d mod 2 = 0 \<Longrightarrow> even (nat d)"
proof -
  assume "0 \<le> d" "d mod 2 = 0"
  then have "even d" by presburger
  with \<open>0 \<le> d\<close> show ?thesis by (simp add: even_nat_iff)
qed

lemma length_div_term: "0 \<le> d \<Longrightarrow> d mod 2 = 0 \<Longrightarrow> length (div_term d) = nat d div 2"
  using even_nat_dim[of d] unfolding div_term_def by simp

lemma half_less: "even (n::nat) \<Longrightarrow> 2 * k < n \<Longrightarrow> k < n div 2"
  by (auto elim: evenE)

lemma length_pe_row: "length (pe_row d pos) = nat d"
  by (simp add: pe_row_def length_assign_stride2)

lemma pe_row_even:
  assumes "0 \<le> d" "d mod 2 = 0" "2 * k < nat d"
  shows "pe_row d pos ! (2 * k) = sin (real pos * exp (real (2 * k) * - (ln 10000 / real_of_int d)))"
proof -
  have k: "k < length (div_term d)" using assms half_less[OF even_nat_dim] by (simp add: length_div_term)
  have "div_term d ! k = exp (real (2 * k) * - (ln 10000 / real_of_int d))"
    using k unfolding div_term_def by simp
  then show ?thesis using assms k
    by (simp add: pe_row_def nth_assign_stride2 length_assign_stride2)
qed

lemma pe_row_odd:
  assumes "0 \<le> d" "d mod 2 = 0" "2 * k < nat d"
  shows "pe_row d pos ! (2 * k + 1) = cos (real pos * exp (real (2 * k) * - (ln 10000 / real_of_int d)))"
proof -
  have k: "k < length (div_term d)" using assms half_less[OF even_nat_dim] by (simp add: length_div_term)
  have "div_term d ! k = exp (real (2 * k) * - (ln 10000 / real_of_int d))"
    using k unfolding div_term_def by simp
  moreover have "2 * k + 1 < nat d" using assms(3) even_nat_dim[OF assms(1,2)] by (auto elim: evenE)
  ultimately show ?thesis using assms k
    by (simp add: pe_row_def nth_assign_stride2 length_assign_stride2)
qed

text \<open>
  Claim C8. \<open>positionalencoding1d\<close> is a function of the dimension and the length
  alone, so two calls with the same arguments give the same table. For an odd dimension
  it raises ValueError. For an even dimension \<open>d > 0\<close> and a length \<open>L \<ge> 0\<close> it
  returns a table of \<open>L\<close> rows of \<open>d\<close> columns in which, at position \<open>pos\<close>,
  column \<open>2k\<close> is \<open>sin (pos * div_term k)\<close> and column \<open>2k + 1\<close> is
  \<open>cos (pos * div_term k)\<close> with \<open>div_term k = exp (2k * -(ln 10000 / d))\<close>.
\<close>

theorem positionalencoding1d_table:
  "(d mod 2 \<noteq> 0 \<longrightarrow> positionalencoding1d d L = Inl ValueError) \<and>
   (d mod 2 = 0 \<and> 0 < d \<and> 0 \<le> L \<longrightarrow>
      (\<exists>table. positionalencoding1d d L = Inr table \<and> length table = nat L \<and>
         (\<forall>pos < nat L. length (table ! pos) = nat d \<and>
            (\<forall>k. 2 * k < nat d \<longrightarrow>
               table ! pos ! (2 * k) =
                 sin (real pos * exp (real (2 * k) * - (ln 10000 / real_of_int d))) \<and>
               table ! pos ! (2 * k + 1) =
                 cos (real pos * exp (real (2 * k) * - (ln 10000 / real_of_int d))))))) \<and>
   (\<forall>t1 t2. positionalencoding1d d L = Inr t1 \<and> positionalencoding1d d L = Inr t2 \<longrightarrow> t1 = t2)"
proof (intro conjI impI)
  assume "d mod 2 \<noteq> 0"
  then show "positionalencoding1d d L = Inl ValueError"
    by (simp add: positionalencoding1d_def)
next
  assume a: "d mod 2 = 0 \<and> 0 < d \<and> 0 \<le> L"
  let ?table = "map (pe_row d) [0..<nat L]"
  have r: "positionalencoding1d d L = Inr ?table"
    using a by (simp add: positionalencoding1d_def)
  have "\<forall>pos < nat L. length (?table ! pos) = nat d \<and>
            (\<forall>k. 2 * k < nat d \<longrightarrow>
               ?table ! pos ! (2 * k) =
                 sin (real pos * exp (real (2 * k) * - (ln 10000 / real_of_int d))) \<and>
               ?table ! pos ! (2 * k + 1) =
                 cos (real pos * exp (real (2 * k) * - (ln 10000 / real_of_int d))))"
  proof (intro allI impI conjI)
    fix pos assume "pos < nat L"
    then show "length (?table ! pos) = nat d" by (simp add: length_pe_row)
  next
    fix pos k assume "pos < nat L" "2 * k < nat d"
    then show "?table ! pos ! (2 * k) =
                 sin (real pos * exp (real (2 * k) * - (ln 10000 / real_of_int d)))"
      using a pe_row_even[of d k pos] by simp
  next
    fix pos k assume "pos < nat L" "2 * k < nat d"
    then show "?table ! pos ! (2 * k + 1) =
                 cos (real pos * exp (real (2 * k) * - (ln 10000 / real_of_int d)))"
      using a pe_row_odd[of d k pos] by simp
  qed
  with r show "\<exists>table. positionalencoding1d d L = Inr table \<and> length table = nat L \<and>
         (\<forall>pos < nat L. length (table ! pos) = nat d \<and>
            (\<forall>k. 2 * k < nat d \<longrightarrow>
               table ! pos ! (2 * k) =
                 sin (real pos * exp (real (2 * k) * - (ln 10000 / real_of_int d))) \<and>
               table ! pos ! (2 * k + 1) =
                 cos (real pos * exp (real (2 * k) * - (ln 10000 / real_of_int d)))))"
    by (intro exI[of _ ?table]) simp
next
  show "\<forall>t1 t2. positionalencoding1d d L = Inr t1 \<and> positionalencoding1d d L = Inr t2 \<longrightarrow> t1 = t2"
    by auto
qed

theorem positionalencoding1d_table_witness:
  "positionalencoding1d 3 4 = Inl ValueError \<and>
   (\<exists>table. positionalencoding1d 2 2 = Inr table \<and> length table = 2 \<and>
      table ! 1 = [sin 1, cos 1])"
proof -
  have "positionalencoding1d 3 4 = Inl ValueError"
    using positionalencoding1d_table[of 3 4] by simp
  moreover obtain table where t: "positionalencoding1d 2 2 = Inr table" "length table = 2"
    "\<forall>pos < 2. length (table ! pos) = 2 \<and>
            (\<forall>k. 2 * k < (2::nat) \<longrightarrow>
               table ! pos ! (2 * k) =
                 sin (real pos * exp (real (2 * k) * - (ln 10000 / 2))) \<and>
               table ! pos ! (2 * k + 1) =
                 cos (real pos * exp (real (2 * k) * - (ln 10000 / 2))))"
    using positionalencoding1d_table[of 2 2] by auto
  from t(3) have l: "length (table ! 1) = 2" by simp
  from t(3) have "table ! 1 ! (2 * 0) = sin (real 1 * exp (real (2 * 0) * - (ln 10000 / 2))) \<and>
               table ! 1 ! (2 * 0 + 1) =
                 cos (real 1 * exp (real (2 * 0) * - (ln 10000 / 2)))"
    by (metis mult_0_right one_less_numeral_iff semiring_norm(76) zero_less_numeral)
  then have "table ! 1 ! 0 = sin 1" "table ! 1 ! 1 = cos 1" by simp_all
  with l have "table ! 1 = [sin 1, cos 1]"
    by (cases "table ! 1"; simp) (metis One_nat_def length_0_conv length_Suc_conv nth_Cons_0 nth_Cons_Suc numeral_2_eq_2 Suc_inject list.inject)
  with t(1,2) \<open>positionalencoding1d 3 4 = Inl ValueError\<close> show ?thesis by blast
qed

section \<open>Lemmas on the tensor operations and the forward pass\<close>

lemma bindE_Inl [simp]: "bindE (Inl e) f = Inl e"
  by (simp add: bindE_def)

lemma bindE_Inr [simp]: "bindE (Inr x) f = f x"
  by (simp add: bindE_def)

lemma bindE_eq_Inr: "bindE r f = Inr y \<longleftrightarrow> (\<exists>x. r = Inr x \<and> f x = Inr y)"
  by (cases r) simp_all

lemma bindE_pair_eq_Inr:
  "bindE r (\<lambda>(a, b). f a b) = Inr y \<longleftrightarrow> (\<exists>a b. r = Inr (a, b) \<and> f a b = Inr y)"
  by (cases r) auto

lemma shape1_Cons [simp]: "shape1 (r # t) = length r"
  by (simp add: shape1_def)

lemma shape1_Nil [simp]: "shape1 [] = 0"
  by (simp add: shape1_def)

lemma shape1_map_map [simp]: "shape1 (map (map f) t) = shape1 t"
  by (cases t) simp_all

lemma rect_iff: "rect t \<longleftrightarrow> (\<forall>r \<in> set t. length r = shape1 t)"
  by (simp add: rect_def list_all_iff)

lemma rect_map_map [simp]: "rect (map (map f) t) = rect t"
  by (simp add: rect_iff)

lemma rect_uniform: "\<forall>r \<in> set t. length r = n \<Longrightarrow> rect t"
  by (cases t) (simp_all add: rect_iff)

lemma rect_shape1: "\<forall>r \<in> set t. length r = n \<Longrightarrow> t \<noteq> [] \<Longrightarrow> shape1 t = n"
  by (cases t) simp_all

text \<open>The masking utility.\<close>

lemma length_get_mask [simp]: "length (get_mask data p) = length data"
  by (simp add: get_mask_def)


lemma not_mask_times_get_mask:
  "not_mask_times (get_mask data p) data = map (map (\<lambda>x. if x = p then 0 else x)) data"
proof -
  have row: "map2 (\<lambda>b x. (if \<not> b then 1 else 0) * x) (map (\<lambda>x. x = p) r) r =
      map (\<lambda>x. if x = p then 0 else x) r" for r :: "int list"
    by (induction r) simp_all
  show ?thesis
    unfolding not_mask_times_def get_mask_def
    by (induction data) (simp_all add: row)
qed

text \<open>The embedding lookup.\<close>

lemma embedding_Inr:
  "embedding table ids = Inr e \<longleftrightarrow>
     (\<forall>r \<in> set ids. \<forall>i \<in> set r. 0 \<le> i \<and> i < int (length table)) \<and>
     e = map (map (\<lambda>i. table ! nat i)) ids"
  by (auto simp: embedding_def list_all_iff)

lemma embedding_Inl:
  "embedding table ids = Inl err \<longleftrightarrow>
     \<not> (\<forall>r \<in> set ids. \<forall>i \<in> set r. 0 \<le> i \<and> i < int (length table)) \<and> err = IndexError"
  by (auto simp: embedding_def list_all_iff)

text \<open>The output projection.\<close>

lemma length_apply_linear:
  "length (apply_linear l x) = min (length (weight l)) (length (bias l))"
  by (simp add: apply_linear_def)

lemma length_log_softmax [simp]: "length (log_softmax x) = length x"
  by (simp add: log_softmax_def)

lemma sum_list_exp_pos: "x \<noteq> [] \<Longrightarrow> 0 < sum_list (map exp (x :: real list))"
proof (induction x)
  case Nil
  then show ?case by simp
next
  case (Cons a x)
  show ?case
  proof (cases "x = []")
    case True
    then show ?thesis by simp
  next
    case False
    with Cons.IH have "0 < sum_list (map exp x)" by simp
    moreover have "0 < exp a" by simp
    ultimately have "0 < exp a + sum_list (map exp x)" by (rule add_pos_pos[rotated])
    then show ?thesis by simp
  qed
qed

lemma sum_list_exp_shift:
  "sum_list (map exp (map (\<lambda>v. v - c) x)) = sum_list (map exp (x :: real list)) / exp c"
  by (induction x) (simp_all add: exp_diff add_divide_distrib)

lemma log_softmax_normalised:
  assumes "x \<noteq> []"
  shows "sum_list (map exp (log_softmax x)) = 1"
proof -
  let ?S = "sum_list (map exp x)"
  have pos: "0 < ?S" using assms by (rule sum_list_exp_pos)
  have "sum_list (map exp (log_softmax x)) = ?S / exp (ln ?S)"
    unfolding log_softmax_def by (rule sum_list_exp_shift)
  also have "\<dots> = 1" using pos by simp
  finally show ?thesis .
qed

text \<open>Shapes.\<close>

lemma same_shape_length: "same_shape a b \<Longrightarrow> length a = length b"
  by (simp add: same_shape_def list_all2_lengthD)

lemma same_shape_nth: "same_shape a b \<Longrightarrow> i < length b \<Longrightarrow> length (a ! i) = length (b ! i)"
  by (simp add: same_shape_def list_all2_conv_all_nth)

lemma same_shape_refl [simp]: "same_shape a a"
  by (simp add: same_shape_def list_all2_refl)

lemma same_shape_sym: "same_shape a b \<Longrightarrow> same_shape b a"
  by (simp add: same_shape_def list_all2_conv_all_nth)

lemma same_shape_trans: "same_shape a b \<Longrightarrow> same_shape b c \<Longrightarrow> same_shape a c"
  by (simp add: same_shape_def list_all2_conv_all_nth)

lemma same_shape_map_map [simp]: "same_shape (map (map f) t) t"
  by (simp add: same_shape_def list_all2_conv_all_nth)

lemma same_shape_map_map2 [simp]: "same_shape (map (map f) t) (map (map g) t)"
  by (simp add: same_shape_def list_all2_conv_all_nth)

lemma same_shape_shape1: "same_shape a b \<Longrightarrow> shape1 a = shape1 b"
  by (cases a; cases b) (simp_all add: same_shape_def)

lemma same_shape_rect: "same_shape a b \<Longrightarrow> rect b \<Longrightarrow> rect a"
proof -
  assume ab: "same_shape a b" and b: "rect b"
  have "length r = shape1 a" if "r \<in> set a" for r
  proof -
    from that obtain i where i: "i < length a" "r = a ! i" by (auto simp: in_set_conv_nth)
    with ab have "i < length b" "length r = length (b ! i)"
      by (simp_all add: same_shape_length same_shape_nth)
    with b have "length r = shape1 b" by (simp add: rect_iff)
    with ab show ?thesis by (simp add: same_shape_shape1)
  qed
  then show ?thesis by (simp add: rect_iff)
qed

lemma same_shape_get_mask [simp]: "same_shape (get_mask t p) t"
  by (simp add: get_mask_def)

lemma features_iff: "features d t \<longleftrightarrow> (\<forall>r \<in> set t. \<forall>v \<in> set r. length v = d)"
  by (simp add: features_def list_all_iff)

text \<open>Adding the positional table.\<close>

lemma encode_position_Inr:
  "encode_position data w = Inr (r, w') \<longleftrightarrow>
     shape1 data \<le> length (pe (self w)) \<and>
     r = map (\<lambda>row. map2 (map2 (+)) row (take (shape1 data) (pe (self w)))) data \<and>
     w' = w\<lparr>self := (self w)\<lparr>pe_device := param_device (self w)\<rparr>\<rparr>"
  by (cases "pe_device (self w) = param_device (self w)")
     (auto simp: encode_position_def Let_def)

lemma encode_position_Inl:
  "encode_position data w = Inl e \<longleftrightarrow> length (pe (self w)) < shape1 data \<and> e = RuntimeError"
  by (cases "pe_device (self w) = param_device (self w)")
     (auto simp: encode_position_def Let_def)

lemma add_pe_shape:
  assumes "rect data" "shape1 data \<le> length table"
  shows "same_shape (map (\<lambda>row. map2 f row (take (shape1 data) table)) data) data"
  using assms by (auto simp: same_shape_def list_all2_conv_all_nth rect_iff)

lemma add_pe_features:
  assumes "features d data" "list_all (\<lambda>r. length r = d) table"
  shows "features d (map (\<lambda>row. map2 (map2 (+)) row (take n table)) data)"
proof -
  have "length (map2 (+) v p) = d" if "v \<in> set row" "row \<in> set data" "p \<in> set (take n table)"
    for v p :: "real list" and row
  proof -
    have "length v = d" using that(1,2) assms(1) by (auto simp: features_iff)
    moreover have "length p = d" using that(3) assms(2) by (auto simp: list_all_iff dest: in_set_takeD)
    ultimately show ?thesis by simp
  qed
  then show ?thesis
    by (auto simp: features_iff dest!: set_zip_leftD set_zip_rightD elim!: in_set_zipE) 
qed

text \<open>The model object across an operation.\<close>

lemma same_weights_refl [simp]: "same_weights m m"
  by (simp add: same_weights_def)

lemma same_weights_trans: "same_weights a b \<Longrightarrow> same_weights b c \<Longrightarrow> same_weights a c"
  unfolding same_weights_def by (metis model.surjective model.update_convs(6))

lemma same_weights_migrate [simp]: "same_weights m (m\<lparr>pe_device := dv\<rparr>)"
  by (simp add: same_weights_def)

lemma same_weights_fields:
  assumes "same_weights m m'"
  shows "device m' = device m" "param_device m' = param_device m"
    "board_embed m' = board_embed m" "move_embed m' = move_embed m" "pe m' = pe m"
    "transformer m' = transformer m" "to_emb_board m' = to_emb_board m"
    "to_emb_move m' = to_emb_move m" "to_dist m' = to_dist m" "start_token m' = start_token m"
proof -
  from assms have e: "m' = m\<lparr>pe_device := pe_device m'\<rparr>" by (simp add: same_weights_def)
  show "device m' = device m" by (subst e) simp
  show "param_device m' = param_device m" by (subst e) simp
  show "board_embed m' = board_embed m" by (subst e) simp
  show "move_embed m' = move_embed m" by (subst e) simp
  show "pe m' = pe m" by (subst e) simp
  show "transformer m' = transformer m" by (subst e) simp
  show "to_emb_board m' = to_emb_board m" by (subst e) simp
  show "to_emb_move m' = to_emb_move m" by (subst e) simp
  show "to_dist m' = to_dist m" by (subst e) simp
  show "start_token m' = start_token m" by (subst e) simp
qed

lemma same_weights_parameters: "same_weights m m' \<Longrightarrow> parameters m' = parameters m"
  by (simp add: parameters_def same_weights_fields)

lemma same_weights_model_ok: "same_weights m m' \<Longrightarrow> model_ok d m \<Longrightarrow> model_ok d m'"
  by (simp add: model_ok_def same_weights_fields)

text \<open>The two embeddings.\<close>

lemma state_embed_Inr:
  "state_embed s w = Inr (r, w') \<longleftrightarrow>
     device (self w) = param_device (self w) \<and>
     (\<forall>row \<in> set s. \<forall>i \<in> set row. 0 \<le> i \<and> i < int (length (board_embed (self w)))) \<and>
     shape1 s \<le> length (pe (self w)) \<and>
     r = map (\<lambda>row. map2 (map2 (+)) row (take (shape1 s) (pe (self w))))
           (map (map (apply_linear (to_emb_board (self w)))) (map (map (\<lambda>i. board_embed (self w) ! nat i)) s)) \<and>
     w' = w\<lparr>self := (self w)\<lparr>pe_device := param_device (self w)\<rparr>,
           calls := calls w @ [StateEmbedCall s]\<rparr>"
  by (auto simp: state_embed_def Let_def bindE_eq_Inr embedding_Inr encode_position_Inr)

lemma action_embed_Inr:
  "action_embed s w = Inr (r, w') \<longleftrightarrow>
     device (self w) = param_device (self w) \<and>
     (\<forall>row \<in> set s. \<forall>i \<in> set row. 0 \<le> i \<and> i < int (length (move_embed (self w)))) \<and>
     shape1 s \<le> length (pe (self w)) \<and>
     r = map (\<lambda>row. map2 (map2 (+)) row (take (shape1 s) (pe (self w))))
           (map (map (apply_linear (to_emb_move (self w)))) (map (map (\<lambda>i. move_embed (self w) ! nat i)) s)) \<and>
     w' = w\<lparr>self := (self w)\<lparr>pe_device := param_device (self w)\<rparr>,
           calls := calls w @ [ActionEmbedCall s]\<rparr>"
  by (auto simp: action_embed_def Let_def bindE_eq_Inr embedding_Inr encode_position_Inr)

lemma embed_value_shape:
  fixes tb :: "real list list"
  assumes "rect s" "shape1 s \<le> length table" "linear_ok 8 d l" "list_all (\<lambda>r. length r = d) table"
  defines "r \<equiv> map (\<lambda>row. map2 (map2 (+)) row (take (shape1 s) table))
           (map (map (apply_linear l)) (map (map (\<lambda>i. tb ! nat i)) s))"
  shows "same_shape r s" "features d r" "rect r" "shape1 r = shape1 s"
proof -
  let ?e = "map (map (apply_linear l)) (map (map (\<lambda>i. tb ! nat i)) s)"
  have "same_shape r ?e"
    unfolding r_def using add_pe_shape[of ?e table "map2 (+)"] assms(1,2) by simp
  moreover have "same_shape ?e s"
    by (rule same_shape_trans[of _ "map (map (\<lambda>i. tb ! nat i)) s"]) simp_all
  ultimately show ss: "same_shape r s" by (rule same_shape_trans)
  have "features d ?e" using assms(3) by (simp add: features_iff linear_ok_def length_apply_linear)
  then show "features d r" unfolding r_def using assms(4) by (rule add_pe_features)
  show "rect r" using ss assms(1) by (rule same_shape_rect)
  show "shape1 r = shape1 s" using ss by (rule same_shape_shape1)
qed

lemma state_embed_frame:
  assumes "state_embed s w = Inr (r, w')"
  shows "same_weights (self w) (self w')" "rng w' = rng w" "calls w' = calls w @ [StateEmbedCall s]"
  using assms by (simp_all add: state_embed_Inr)

lemma action_embed_frame:
  assumes "action_embed s w = Inr (r, w')"
  shows "same_weights (self w) (self w')" "rng w' = rng w" "calls w' = calls w @ [ActionEmbedCall s]"
  using assms by (simp_all add: action_embed_Inr)

lemma state_embed_shape:
  assumes "state_embed s w = Inr (r, w')" "model_ok d (self w)" "rect s"
  shows "same_shape r s" "features d r" "rect r" "shape1 r = shape1 s"
proof -
  from assms(1) have r: "r = map (\<lambda>row. map2 (map2 (+)) row (take (shape1 s) (pe (self w))))
           (map (map (apply_linear (to_emb_board (self w)))) (map (map (\<lambda>i. board_embed (self w) ! nat i)) s))"
    and le: "shape1 s \<le> length (pe (self w))"
    by (simp_all add: state_embed_Inr)
  from assms(2) have ok: "linear_ok 8 d (to_emb_board (self w))"
    "list_all (\<lambda>r. length r = d) (pe (self w))"
    by (simp_all add: model_ok_def)
  show "same_shape r s" "features d r" "rect r" "shape1 r = shape1 s"
    unfolding r using embed_value_shape[OF assms(3) le ok] by simp_all
qed

lemma action_embed_shape:
  assumes "action_embed s w = Inr (r, w')" "model_ok d (self w)" "rect s"
  shows "same_shape r s" "features d r" "rect r" "shape1 r = shape1 s"
proof -
  from assms(1) have r: "r = map (\<lambda>row. map2 (map2 (+)) row (take (shape1 s) (pe (self w))))
           (map (map (apply_linear (to_emb_move (self w)))) (map (map (\<lambda>i. move_embed (self w) ! nat i)) s))"
    and le: "shape1 s \<le> length (pe (self w))"
    by (simp_all add: action_embed_Inr)
  from assms(2) have ok: "linear_ok 8 d (to_emb_move (self w))"
    "list_all (\<lambda>r. length r = d) (pe (self w))"
    by (simp_all add: model_ok_def)
  show "same_shape r s" "features d r" "rect r" "shape1 r = shape1 s"
    unfolding r using embed_value_shape[OF assms(3) le ok] by simp_all
qed

lemma state_embed_total:
  assumes "device (self w) = param_device (self w)"
    "\<forall>row \<in> set s. \<forall>i \<in> set row. 0 \<le> i \<and> i < int (length (board_embed (self w)))"
    "shape1 s \<le> length (pe (self w))"
  shows "\<exists>r w'. state_embed s w = Inr (r, w')"
  using assms by (simp add: state_embed_Inr)

lemma action_embed_total:
  assumes "device (self w) = param_device (self w)"
    "\<forall>row \<in> set s. \<forall>i \<in> set row. 0 \<le> i \<and> i < int (length (move_embed (self w)))"
    "shape1 s \<le> length (pe (self w))"
  shows "\<exists>r w'. action_embed s w = Inr (r, w')"
  using assms by (simp add: action_embed_Inr)

text \<open>The transformer pass.\<close>

lemma transformer_pass_Inr:
  "transformer_pass src tgt sm tpm w = Inr (out, w') \<longleftrightarrow>
     transformer (self w) src tgt (generate_square_subsequent_mask (shape1 tgt)) sm tpm = Inr out \<and>
     w' = w\<lparr>calls := calls w @ [TransformerPassCall src tgt sm tpm]\<rparr>"
  by (auto simp: transformer_pass_def Let_def bindE_eq_Inr)

lemma transformer_ok_shape:
  assumes "transformer_ok d tr" "tr src tgt tm sm tpm = Inr out"
  shows "same_shape out tgt" "features d out"
  using assms(1)[unfolded transformer_ok_def, rule_format, of src tgt tm sm tpm] assms(2)
  by simp_all

lemma transformer_ok_total:
  assumes "transformer_ok d tr" "transformer_input_ok d src tgt tm sm tpm"
  shows "\<exists>out. tr src tgt tm sm tpm = Inr out"
  using assms(1)[unfolded transformer_ok_def, rule_format, of src tgt tm sm tpm] assms(2)
  by (cases "tr src tgt tm sm tpm") simp_all

lemma transformer_pass_shape:
  assumes "transformer_pass src tgt sm tpm w = Inr (out, w')" "model_ok d (self w)"
  shows "same_shape out tgt" "features d out"
proof -
  from assms(2) have "transformer_ok d (transformer (self w))" by (simp add: model_ok_def)
  moreover from assms(1) have
    "transformer (self w) src tgt (generate_square_subsequent_mask (shape1 tgt)) sm tpm = Inr out"
    by (simp add: transformer_pass_Inr)
  ultimately show "same_shape out tgt" "features d out"
    by (rule transformer_ok_shape)+
qed

lemma transformer_pass_frame:
  assumes "transformer_pass src tgt sm tpm w = Inr (out, w')"
  shows "self w' = self w" "rng w' = rng w"
    "calls w' = calls w @ [TransformerPassCall src tgt sm tpm]"
  using assms by (simp_all add: transformer_pass_Inr)

text \<open>The forward pass.\<close>

lemma forward_Inr:
  "forward state action w = Inr (out, w') \<longleftrightarrow>
     (\<exists>src w1 tgt w2 hid.
        state_embed (not_mask_times (get_mask state (- 1)) state) w = Inr (src, w1) \<and>
        action_embed (not_mask_times (get_mask action (- 1)) action) w1 = Inr (tgt, w2) \<and>
        transformer_pass src tgt (get_mask state (- 1)) (get_mask action (- 1)) w2 = Inr (hid, w') \<and>
        out = map butlast (apply_to_dist (self w') hid))"
  unfolding forward_def Let_def bindE_pair_eq_Inr
  by auto

lemma masked_ids_in_range:
  assumes "ids_ok n t" "0 < n"
  shows "\<forall>row \<in> set (not_mask_times (get_mask t (- 1)) t). \<forall>i \<in> set row. 0 \<le> i \<and> i < int n"
  using assms by (auto simp: not_mask_times_get_mask ids_ok_def list_all_iff)

lemma masked_same_shape [simp]: "same_shape (not_mask_times (get_mask t p) t) t"
  by (simp add: not_mask_times_get_mask)

lemma masked_rect [simp]: "rect (not_mask_times (get_mask t p) t) = rect t"
  by (simp add: not_mask_times_get_mask)

lemma masked_shape1 [simp]: "shape1 (not_mask_times (get_mask t p) t) = shape1 t"
  by (simp add: not_mask_times_get_mask)

lemma masked_length [simp]: "length (not_mask_times (get_mask t p) t) = length t"
  by (simp add: not_mask_times_get_mask)

lemma forward_total:
  assumes ok: "model_ok d (self w)" and dev: "device (self w) = param_device (self w)"
    and vb: "0 < length (board_embed (self w))" and vm: "0 < length (move_embed (self w))"
    and ids: "ids_ok (length (board_embed (self w))) state"
    and ida: "ids_ok (length (move_embed (self w))) action"
    and rs: "rect state" and ra: "rect action" and bs: "length state = length action"
    and ls: "0 < shape1 state" "shape1 state \<le> length (pe (self w))"
    and la: "0 < shape1 action" "shape1 action \<le> length (pe (self w))"
  shows "\<exists>src w1 tgt w2 hid.
        state_embed (not_mask_times (get_mask state (- 1)) state) w = Inr (src, w1) \<and>
        action_embed (not_mask_times (get_mask action (- 1)) action) w1 = Inr (tgt, w2) \<and>
        transformer_pass src tgt (get_mask state (- 1)) (get_mask action (- 1)) w2 =
          Inr (hid, w2\<lparr>calls := calls w2 @
             [TransformerPassCall src tgt (get_mask state (- 1)) (get_mask action (- 1))]\<rparr>)"
proof -
  let ?ms = "not_mask_times (get_mask state (- 1)) state"
  let ?ma = "not_mask_times (get_mask action (- 1)) action"
  obtain src w1 where se: "state_embed ?ms w = Inr (src, w1)"
    using state_embed_total[of w ?ms] dev masked_ids_in_range[OF ids vb] ls by auto
  have sw1: "same_weights (self w) (self w1)" using se by (rule state_embed_frame)
  then have ok1: "model_ok d (self w1)" using ok by (rule same_weights_model_ok)
  have "\<exists>r w'. action_embed ?ma w1 = Inr (r, w')"
    using dev masked_ids_in_range[OF ida vm] la
    by (intro action_embed_total) (simp_all add: same_weights_fields[OF sw1])
  then obtain tgt w2 where ae: "action_embed ?ma w1 = Inr (tgt, w2)" by blast
  have sw2: "same_weights (self w1) (self w2)" using ae by (rule action_embed_frame)
  then have ok2: "model_ok d (self w2)" using ok1 by (rule same_weights_model_ok)
  have ss: "same_shape src ?ms" "features d src" "rect src" "shape1 src = shape1 ?ms"
    using state_embed_shape[OF se ok] rs by simp_all
  have st: "same_shape tgt ?ma" "features d tgt" "rect tgt" "shape1 tgt = shape1 ?ma"
    using action_embed_shape[OF ae ok1] ra by simp_all
  have "same_shape src state" using ss(1) by (rule same_shape_trans) simp
  then have "same_shape state src" by (rule same_shape_sym)
  then have m1: "same_shape (get_mask state (- 1)) src"
    by (rule same_shape_trans[OF same_shape_get_mask])
  have "same_shape tgt action" using st(1) by (rule same_shape_trans) simp
  then have "same_shape action tgt" by (rule same_shape_sym)
  then have m2: "same_shape (get_mask action (- 1)) tgt"
    by (rule same_shape_trans[OF same_shape_get_mask])
  have "length src = length tgt"
    using same_shape_length[OF ss(1)] same_shape_length[OF st(1)] bs by simp
  then have "transformer_input_ok d src tgt (generate_square_subsequent_mask (shape1 tgt))
      (get_mask state (- 1)) (get_mask action (- 1))"
    using ss st ls la m1 m2 by (simp add: transformer_input_ok_def)
  moreover have "transformer_ok d (transformer (self w2))" using ok2 by (simp add: model_ok_def)
  ultimately obtain hid where
    "transformer (self w2) src tgt (generate_square_subsequent_mask (shape1 tgt))
       (get_mask state (- 1)) (get_mask action (- 1)) = Inr hid"
    using transformer_ok_total by blast
  then have "transformer_pass src tgt (get_mask state (- 1)) (get_mask action (- 1)) w2 =
          Inr (hid, w2\<lparr>calls := calls w2 @
             [TransformerPassCall src tgt (get_mask state (- 1)) (get_mask action (- 1))]\<rparr>)"
    by (simp add: transformer_pass_Inr)
  with se ae show ?thesis by blast
qed

lemma apply_to_dist_normalised:
  assumes "linear_ok d v (to_dist m)" "0 < v"
  shows "\<forall>row \<in> set (apply_to_dist m hid). \<forall>dist \<in> set row.
           length dist = v \<and> sum_list (map exp dist) = 1"
proof (intro ballI)
  fix row dist assume "row \<in> set (apply_to_dist m hid)" "dist \<in> set row"
  then obtain h where dist: "dist = log_softmax (apply_linear (to_dist m) h)"
    by (auto simp: apply_to_dist_def)
  have len: "length (apply_linear (to_dist m) h) = v"
    using assms(1) by (simp add: linear_ok_def length_apply_linear)
  with assms(2) have "0 < length (apply_linear (to_dist m) h)" by simp
  then have "apply_linear (to_dist m) h \<noteq> []" by blast
  then show "length dist = v \<and> sum_list (map exp dist) = 1"
    unfolding dist using len by (simp add: log_softmax_normalised)
qed

section \<open>The forward pass: shape, normalisation, sentinel positions\<close>

text \<open>The small model is a model the constructor builds, and it is well formed.\<close>

lemma toy_transformer_ok: "transformer_ok d (toy_transformer d)"
  unfolding transformer_ok_def toy_transformer_def transformer_input_ok_def by auto

lemma toy_model_init:
  "BaseModel_init CPU toy_table toy_table (toy_transformer 8) (zero_linear 8 8) (zero_linear 8 8)
     toy_dist 8 0 = Inr toy_model"
  by (simp add: BaseModel_init_def positionalencoding1d_def toy_model_def)

lemma toy_model_ok: "model_ok 8 toy_model"
  by (simp add: model_ok_def toy_model_def toy_table_def zero_linear_def toy_dist_def
      linear_ok_def list_all_iff length_pe_row toy_transformer_ok)

lemma toy_model_fields:
  "device toy_model = param_device toy_model" "length (board_embed toy_model) = 2"
  "length (move_embed toy_model) = 2" "length (pe toy_model) = 1024"
  "start_token toy_model = [[0]]"
  by (simp_all add: toy_model_def toy_table_def)

text \<open>
  Claim C1. Whenever \<open>forward(state, action)\<close> returns, for an action batch whose rows
  have length \<open>M\<close>: the result has one row per batch element, each row holds exactly
  \<open>M - 1\<close> distributions, every distribution ranges over the move vocabulary and its
  exponentials sum to 1. The distribution at position \<open>i\<close> is the output projection of
  the transformer's output at target position \<open>i\<close>; the last target position is the
  one dropped, so position \<open>i\<close> predicts token \<open>i + 2\<close> of the \<open>M\<close> tokens.
  (Tensor elements are real numbers here.)
\<close>

theorem forward_shifted_distributions:
  assumes ok: "model_ok d (self w)"
    and len: "\<forall>r \<in> set action. length r = M"
    and fw: "forward state action w = Inr (out, w')"
  shows "length out = length action \<and>
         (\<forall>row \<in> set out. length row = M - 1 \<and>
            (\<forall>dist \<in> set row. length dist = length (move_embed (self w)) \<and>
               sum_list (map exp dist) = 1)) \<and>
         (\<exists>src tgt w2 hid.
            transformer_pass src tgt (get_mask state (- 1)) (get_mask action (- 1)) w2 =
              Inr (hid, w') \<and>
            (\<forall>b < length action. \<forall>i. i + 1 < M \<longrightarrow>
               out ! b ! i = log_softmax (apply_linear (to_dist (self w)) (hid ! b ! i))))"
proof -
  let ?ms = "not_mask_times (get_mask state (- 1)) state"
  let ?ma = "not_mask_times (get_mask action (- 1)) action"
  let ?f = "\<lambda>h. log_softmax (apply_linear (to_dist (self w)) h)"
  from fw obtain src w1 tgt w2 hid where
    se: "state_embed ?ms w = Inr (src, w1)" and
    ae: "action_embed ?ma w1 = Inr (tgt, w2)" and
    tp: "transformer_pass src tgt (get_mask state (- 1)) (get_mask action (- 1)) w2 = Inr (hid, w')" and
    out0: "out = map butlast (apply_to_dist (self w') hid)"
    unfolding forward_Inr by blast
  have sw1: "same_weights (self w) (self w1)" using se by (rule state_embed_frame)
  have sw2: "same_weights (self w1) (self w2)" using ae by (rule action_embed_frame)
  have sw: "same_weights (self w) (self w')"
    using same_weights_trans[OF sw1 sw2] transformer_pass_frame(1)[OF tp] by simp
  have ok1: "model_ok d (self w1)" using sw1 ok by (rule same_weights_model_ok)
  have ok2: "model_ok d (self w2)" using sw2 ok1 by (rule same_weights_model_ok)
  have out: "out = map (\<lambda>row. butlast (map ?f row)) hid"
    unfolding out0 apply_to_dist_def by (simp add: same_weights_fields[OF sw])
  have ra: "rect action" using len by (rule rect_uniform)
  have "same_shape tgt ?ma" using action_embed_shape(1)[OF ae ok1] ra by simp
  then have "same_shape tgt action" by (rule same_shape_trans) simp
  with transformer_pass_shape(1)[OF tp ok2] have sh: "same_shape hid action"
    by (rule same_shape_trans)
  have lh: "length hid = length action" using sh by (rule same_shape_length)
  have row_len: "length (hid ! b) = M" if "b < length action" for b
    using same_shape_nth[OF sh that] len that by simp
  have l1: "length out = length action" using lh by (simp add: out)
  have vocab: "0 < length (move_embed (self w))" if "b < length action" "1 < M" for b
  proof -
    have "length (?ma ! b) = M" using that(1) len by (simp add: not_mask_times_get_mask)
    with that have "?ma ! b ! 0 \<in> set (?ma ! b)" "?ma ! b \<in> set ?ma" by simp_all
    moreover from ae have
      "\<forall>row \<in> set ?ma. \<forall>i \<in> set row. 0 \<le> i \<and> i < int (length (move_embed (self w1)))"
      by (simp add: action_embed_Inr)
    ultimately have "0 \<le> ?ma ! b ! 0 \<and> ?ma ! b ! 0 < int (length (move_embed (self w1)))"
      by blast
    then have "0 < int (length (move_embed (self w1)))" by linarith
    then show ?thesis by (simp add: same_weights_fields[OF sw1])
  qed
  have l2: "\<forall>row \<in> set out. length row = M - 1 \<and>
            (\<forall>dist \<in> set row. length dist = length (move_embed (self w)) \<and>
               sum_list (map exp dist) = 1)"
  proof (intro ballI conjI)
    fix row assume "row \<in> set out"
    then obtain b where b: "b < length action" "row = butlast (map ?f (hid ! b))"
      using lh by (auto simp: out in_set_conv_nth)
    then show rl: "length row = M - 1" using row_len by simp
    fix dist assume dm: "dist \<in> set row"
    then have "row \<noteq> []" by auto
    with rl have "1 < M" by (cases M) auto
    then have v: "0 < length (move_embed (self w))" using vocab b(1) by blast
    from dm b(2) obtain h where dist: "dist = ?f h" by (auto dest!: in_set_butlastD)
    have lin: "linear_ok d (length (move_embed (self w))) (to_dist (self w))"
      using ok by (simp add: model_ok_def)
    have "dist \<in> set [dist]" by simp
    moreover have "[dist] \<in> set (apply_to_dist (self w) [[h]])"
      by (simp add: apply_to_dist_def dist)
    ultimately have "length dist = length (move_embed (self w)) \<and> sum_list (map exp dist) = 1"
      using apply_to_dist_normalised[OF lin v, of "[[h]]"] by blast
    then show "length dist = length (move_embed (self w))" "sum_list (map exp dist) = 1"
      by simp_all
  qed
  have l3: "\<forall>b < length action. \<forall>i. i + 1 < M \<longrightarrow> out ! b ! i = ?f (hid ! b ! i)"
  proof (intro allI impI)
    fix b i assume b: "b < length action" and i: "i + 1 < M"
    then have "i < length (butlast (map ?f (hid ! b)))" using row_len by simp
    then have "butlast (map ?f (hid ! b)) ! i = map ?f (hid ! b) ! i" by (rule nth_butlast)
    also have "\<dots> = ?f (hid ! b ! i)" using i row_len[OF b] by simp
    finally show "out ! b ! i = ?f (hid ! b ! i)" using b lh by (simp add: out)
  qed
  from l1 l2 l3 tp show ?thesis by blast
qed

theorem forward_shifted_distributions_witness:
  "model_ok 8 (self toy_world) \<and> list_all (\<lambda>r. length r = 2) [[0, 1 :: int]] \<and>
   (\<exists>out w'. forward [[1, 0, - 1]] [[0, 1]] toy_world = Inr (out, w') \<and>
      length out = 1 \<and> length (out ! 0) = 1 \<and> length (out ! 0 ! 0) = 2 \<and>
      sum_list (map exp (out ! 0 ! 0)) = 1)"
proof -
  have ok: "model_ok 8 (self toy_world)" by (simp add: toy_world_def toy_model_ok)
  have "\<exists>src w1 tgt w2 hid.
        state_embed (not_mask_times (get_mask [[1, 0, - 1]] (- 1)) [[1, 0, - 1]]) toy_world = Inr (src, w1) \<and>
        action_embed (not_mask_times (get_mask [[0, 1]] (- 1)) [[0, 1]]) w1 = Inr (tgt, w2) \<and>
        transformer_pass src tgt (get_mask [[1, 0, - 1]] (- 1)) (get_mask [[0, 1]] (- 1)) w2 =
          Inr (hid, w2\<lparr>calls := calls w2 @
             [TransformerPassCall src tgt (get_mask [[1, 0, - 1]] (- 1)) (get_mask [[0, 1]] (- 1))]\<rparr>)"
    by (rule forward_total[OF ok])
       (simp_all add: toy_world_def toy_model_fields ids_ok_def rect_def)
  then obtain out w' where fw: "forward [[1, 0, - 1]] [[0, 1]] toy_world = Inr (out, w')"
    unfolding forward_Inr by blast
  have len: "\<forall>r \<in> set [[0, 1 :: int]]. length r = 2" by simp
  have "length out = 1 \<and> length (out ! 0) = 1 \<and> length (out ! 0 ! 0) = 2 \<and>
      sum_list (map exp (out ! 0 ! 0)) = 1"
  proof -
    from forward_shifted_distributions[OF ok len fw]
    have a: "length out = 1" and
      b: "\<forall>row \<in> set out. length row = 1 \<and>
            (\<forall>dist \<in> set row. length dist = 2 \<and> sum_list (map exp dist) = 1)"
      by (simp_all add: toy_world_def toy_model_fields)
    from a have "out ! 0 \<in> set out" by simp
    with b have c: "length (out ! 0) = 1"
      "\<forall>dist \<in> set (out ! 0). length dist = 2 \<and> sum_list (map exp dist) = 1" by blast+
    from c(1) have "out ! 0 ! 0 \<in> set (out ! 0)" by simp
    with c(2) have "length (out ! 0 ! 0) = 2 \<and> sum_list (map exp (out ! 0 ! 0)) = 1" by blast
    with a c(1) show ?thesis by simp
  qed
  with ok fw show ?thesis by auto
qed



section \<open>Lemmas on the decoder\<close>

text \<open>Loops.\<close>

lemma for_each_append:
  "for_each (xs @ ys) body s = bindE (for_each xs body s) (for_each ys body)"
  by (induction xs arbitrary: s) (simp_all add: bindE_def split: sum.splits)

lemma for_each_snoc_Inr:
  "for_each (xs @ [x]) body s = Inr s' \<longleftrightarrow>
     (\<exists>s1. for_each xs body s = Inr s1 \<and> body x s1 = Inr s')"
  by (simp add: for_each_append bindE_eq_Inr)

lemma for_each_Cons_Inr:
  "for_each (x # xs) body s = Inr s' \<longleftrightarrow>
     (\<exists>s1. body x s = Inr s1 \<and> for_each xs body s1 = Inr s')"
  by (simp add: bindE_eq_Inr)

text \<open>Concatenation and the last position.\<close>

lemma cat1_Inr: "cat1 a b = Inr c \<longleftrightarrow> length a = length b \<and> c = map2 (@) a b"
  by (auto simp: cat1_def)

lemma last_position_Inr:
  "last_position t = Inr l \<longleftrightarrow> (\<forall>r \<in> set t. r \<noteq> []) \<and> l = map last t"
  by (auto simp: last_position_def list_all_iff)

text \<open>One step of the decoder.\<close>

lemma decode_step_Inr:
  "decode_step src msk sel i (toks, w) = Inr (toks', w') \<longleftrightarrow>
     (\<exists>decode w1 out w2 logits next g e decode'.
        action_embed toks w = Inr (decode, w1) \<and>
        transformer_pass src decode msk
          (replicate (length decode) (replicate (shape1 decode) False)) w1 = Inr (out, w2) \<and>
        last_position (apply_to_dist (self w2) out) = Inr logits \<and>
        sel logits (rng w2) = Inr (next, g) \<and>
        cat1 toks next = Inr toks' \<and>
        embedding (move_embed (self w2)) next = Inr e \<and>
        cat1 decode (map (map (apply_linear (to_emb_move (self w2)))) e) = Inr decode' \<and>
        w' = w2\<lparr>rng := g\<rparr>)"
  by (auto simp: decode_step_def Let_def bindE_pair_eq_Inr bindE_eq_Inr)

lemma decode_step_frame:
  assumes "decode_step src msk sel i (toks, w) = Inr (toks', w')"
  shows "same_weights (self w) (self w')"
    "\<exists>decode tpm. calls w' = calls w @ [ActionEmbedCall toks, TransformerPassCall src decode msk tpm]"
    "shape1 toks \<le> length (pe (self w))"
    "\<forall>row \<in> set toks. \<forall>i \<in> set row. 0 \<le> i \<and> i < int (length (move_embed (self w)))"
proof -
  from assms obtain decode w1 out w2 g where
    ae: "action_embed toks w = Inr (decode, w1)" and
    tp: "transformer_pass src decode msk
          (replicate (length decode) (replicate (shape1 decode) False)) w1 = Inr (out, w2)" and
    w': "w' = w2\<lparr>rng := g\<rparr>"
    unfolding decode_step_Inr by blast
  have "self w' = self w1" using transformer_pass_frame(1)[OF tp] w' by simp
  then show "same_weights (self w) (self w')" using action_embed_frame(1)[OF ae] by simp
  have "calls w' = calls w @ [ActionEmbedCall toks, TransformerPassCall src decode msk
          (replicate (length decode) (replicate (shape1 decode) False))]"
    using action_embed_frame(3)[OF ae] transformer_pass_frame(3)[OF tp] w' by simp
  then show "\<exists>decode tpm. calls w' = calls w @
      [ActionEmbedCall toks, TransformerPassCall src decode msk tpm]" by blast
  show "shape1 toks \<le> length (pe (self w))" using ae by (simp add: action_embed_Inr)
  show "\<forall>row \<in> set toks. \<forall>i \<in> set row. 0 \<le> i \<and> i < int (length (move_embed (self w)))"
    using ae by (simp add: action_embed_Inr)
qed



lemma max_action_sel_Inr:
  "max_action_sel logits g = Inr (next, g') \<longleftrightarrow>
     (\<forall>r \<in> set logits. r \<noteq> []) \<and> next = map (\<lambda>r. [int (argmax r)]) logits \<and> g' = g"
  by (auto simp: max_action_sel_def list_all_iff)




lemma decode_loop_calls:
  assumes "for_each xs (decode_step src msk sel) (t0, w0) = Inr (toks, w')"
  shows "\<exists>new. calls w' = calls w0 @ new \<and>
           concat (map state_embed_args new) = [] \<and>
           concat (map pass_sources new) = replicate (length xs) src \<and>
           same_weights (self w0) (self w')"
  using assms
proof (induction xs arbitrary: t0 w0)
  case Nil
  then have "w' = w0" by simp
  then show ?case by simp
next
  case (Cons x xs)
  from Cons.prems obtain t1 w1 where
    st: "decode_step src msk sel x (t0, w0) = Inr (t1, w1)" and
    rest: "for_each xs (decode_step src msk sel) (t1, w1) = Inr (toks, w')"
    unfolding for_each_Cons_Inr by auto
  from Cons.IH[OF rest] obtain new where ih:
    "calls w' = calls w1 @ new"
    "concat (map state_embed_args new) = []"
    "concat (map pass_sources new) = replicate (length xs) src"
    "same_weights (self w1) (self w')"
    by blast
  note fr = decode_step_frame[OF st]
  from fr(2) obtain decode tpm where
    c1: "calls w1 = calls w0 @ [ActionEmbedCall t0, TransformerPassCall src decode msk tpm]"
    by blast
  let ?new = "[ActionEmbedCall t0, TransformerPassCall src decode msk tpm] @ new"
  have "calls w' = calls w0 @ ?new" using ih(1) c1 by simp
  moreover have "concat (map state_embed_args ?new) = []" using ih(2) by simp
  moreover have "concat (map pass_sources ?new) = replicate (length (x # xs)) src"
    using ih(3) by simp
  moreover have "same_weights (self w0) (self w')" using fr(1) ih(4) by (rule same_weights_trans)
  ultimately show ?case by blast
qed

lemma inference'_Inr:
  "inference' state max_len sel w = Inr (toks, w') \<longleftrightarrow>
     (\<exists>src w1.
        state_embed (not_mask_times (get_mask state (- 1)) state) w = Inr (src, w1) \<and>
        for_each [0..<nat max_len] (decode_step src (get_mask state (- 1)) sel)
          (concat (replicate (length state) (start_token (self w1))), w1) = Inr (toks, w'))"
  by (simp add: inference'_def Let_def bindE_pair_eq_Inr)

lemma inference'_frame:
  assumes "inference' state max_len sel w = Inr (toks, w')"
  shows "same_weights (self w) (self w')"
proof -
  from assms obtain src w1 where
    se: "state_embed (not_mask_times (get_mask state (- 1)) state) w = Inr (src, w1)" and
    lp: "for_each [0..<nat max_len] (decode_step src (get_mask state (- 1)) sel)
          (concat (replicate (length state) (start_token (self w1))), w1) = Inr (toks, w')"
    unfolding inference'_Inr by blast
  from decode_loop_calls[OF lp] have "same_weights (self w1) (self w')" by blast
  with state_embed_frame(1)[OF se] show ?thesis by (rule same_weights_trans)
qed

lemma concat_replicate_single [simp]: "concat (replicate n [x]) = replicate n x"
  by (induction n) simp_all




text \<open>The arg-max.\<close>

lemma argmax_scan_spec:
  assumes "ys = pre @ xs" "length pre = i" "bi < i" "bv = ys ! bi"
    "\<forall>j < i. ys ! j \<le> bv" "\<forall>j < bi. ys ! j < bv"
  shows "argmax_scan bi bv i xs < length ys \<and>
         (\<forall>j < length ys. ys ! j \<le> ys ! argmax_scan bi bv i xs) \<and>
         (\<forall>j < argmax_scan bi bv i xs. ys ! j < ys ! argmax_scan bi bv i xs)"
  using assms
proof (induction xs arbitrary: pre i bi bv)
  case Nil
  then show ?case by simp
next
  case (Cons x xs)
  have ysi: "ys ! i = x" using Cons.prems(1,2) by (simp add: nth_append)
  have split: "ys = (pre @ [x]) @ xs" "length (pre @ [x]) = Suc i" using Cons.prems(1,2) by simp_all
  show ?case
  proof (cases "bv < x")
    case True
    have a: "\<forall>j < Suc i. ys ! j \<le> x"
    proof (intro allI impI)
      fix j assume "j < Suc i"
      show "ys ! j \<le> x"
      proof (cases "j = i")
        case True
        then show ?thesis using ysi by simp
      next
        case False
        with \<open>j < Suc i\<close> have "j < i" by simp
        then have "ys ! j \<le> bv" using Cons.prems(5) by simp
        with \<open>bv < x\<close> show ?thesis by simp
      qed
    qed
    have b: "\<forall>j < i. ys ! j < x"
    proof (intro allI impI)
      fix j assume "j < i"
      then have "ys ! j \<le> bv" using Cons.prems(5) by simp
      with True show "ys ! j < x" by simp
    qed
    have "argmax_scan i x (Suc i) xs < length ys \<and>
         (\<forall>j < length ys. ys ! j \<le> ys ! argmax_scan i x (Suc i) xs) \<and>
         (\<forall>j < argmax_scan i x (Suc i) xs. ys ! j < ys ! argmax_scan i x (Suc i) xs)"
      by (rule Cons.IH[OF split]) (use ysi a b in simp_all)
    with True show ?thesis by simp
  next
    case False
    have a: "\<forall>j < Suc i. ys ! j \<le> bv"
    proof (intro allI impI)
      fix j assume "j < Suc i"
      show "ys ! j \<le> bv"
      proof (cases "j = i")
        case True
        then show ?thesis using ysi \<open>\<not> bv < x\<close> by simp
      next
        case False
        with \<open>j < Suc i\<close> have "j < i" by simp
        then show ?thesis using Cons.prems(5) by simp
      qed
    qed
    have "argmax_scan bi bv (Suc i) xs < length ys \<and>
         (\<forall>j < length ys. ys ! j \<le> ys ! argmax_scan bi bv (Suc i) xs) \<and>
         (\<forall>j < argmax_scan bi bv (Suc i) xs. ys ! j < ys ! argmax_scan bi bv (Suc i) xs)"
      by (rule Cons.IH[OF split]) (use Cons.prems(3,4,6) a in simp_all)
    with False show ?thesis by simp
  qed
qed

lemma argmax_first_max:
  assumes "xs \<noteq> []"
  shows "argmax xs < length xs \<and> (\<forall>j < length xs. xs ! j \<le> xs ! argmax xs) \<and>
         (\<forall>j < argmax xs. xs ! j < xs ! argmax xs)"
proof -
  from assms obtain x r where xs: "xs = x # r" by (cases xs) auto
  have "argmax_scan 0 x 1 r < length xs \<and>
         (\<forall>j < length xs. xs ! j \<le> xs ! argmax_scan 0 x 1 r) \<and>
         (\<forall>j < argmax_scan 0 x 1 r. xs ! j < xs ! argmax_scan 0 x 1 r)"
    by (rule argmax_scan_spec[of xs "[x]" r 1 0 x]) (simp_all add: xs)
  then show ?thesis by (simp add: argmax_def xs)
qed

lemma sel_in_vocab_max_action_sel: "0 < v \<Longrightarrow> sel_in_vocab v max_action_sel"
proof -
  assume v: "0 < v"
  have "\<exists>next g'. max_action_sel logits g = Inr (next, g') \<and> length next = length logits \<and>
           list_all (\<lambda>r. \<exists>i. r = [i] \<and> 0 \<le> i \<and> i < int v) next"
    if l: "list_all (\<lambda>r. length r = v) logits" for logits and g :: 'a
  proof -
    from l v have ne: "\<forall>r \<in> set logits. r \<noteq> []" by (auto simp: list_all_iff)
    have "argmax r < v" if "r \<in> set logits" for r
      using argmax_first_max[of r] ne l that by (auto simp: list_all_iff)
    then have "list_all (\<lambda>r. \<exists>i. r = [i] \<and> 0 \<le> i \<and> i < int v) (map (\<lambda>r. [int (argmax r)]) logits)"
      by (simp add: list_all_iff)
    with ne show ?thesis by (simp add: max_action_sel_Inr)
  qed
  then show ?thesis unfolding sel_in_vocab_def by blast
qed

lemma sel_in_vocab_sample_action_sel:
  assumes "sampler_ok sampler" "0 < v"
  shows "sel_in_vocab v (sample_action_sel sampler)"
proof -
  have "\<exists>next g'. sample_action_sel sampler logits g = Inr (next, g') \<and> length next = length logits \<and>
           list_all (\<lambda>r. \<exists>i. r = [i] \<and> 0 \<le> i \<and> i < int v) next"
    if l: "list_all (\<lambda>r. length r = v) logits" for logits g
  proof -
    from l assms(2) have "list_all (\<lambda>r. r \<noteq> []) logits" by (auto simp: list_all_iff)
    with assms(1) obtain ids g' where s: "sampler logits g = Inr (ids, g')"
      "length ids = length logits" "list_all2 (\<lambda>i r. 0 \<le> i \<and> i < int (length r)) ids logits"
      unfolding sampler_ok_def by blast
    have "0 \<le> ids ! k \<and> ids ! k < int v" if "k < length ids" for k
      using s(2,3) l that by (auto simp: list_all2_conv_all_nth list_all_length)
    then have "list_all (\<lambda>r. \<exists>i. r = [i] \<and> 0 \<le> i \<and> i < int v) (map (\<lambda>i. [i]) ids)"
      by (simp add: list_all_length)
    with s(1,2) show ?thesis by (simp add: sample_action_sel_def)
  qed
  then show ?thesis unfolding sel_in_vocab_def by blast
qed

lemma toy_sampler_ok: "sampler_ok toy_sampler"
  unfolding sampler_ok_def toy_sampler_def
  by (auto simp: list_all2_conv_all_nth list_all_length)

text \<open>A decode step returns on well-formed inputs.\<close>

lemma zeros_same_shape: "rect t \<Longrightarrow> same_shape (replicate (length t) (replicate (shape1 t) x)) t"
  by (simp add: same_shape_def list_all2_conv_all_nth rect_iff)

lemma rows_nonempty:
  assumes "rect t" "0 < shape1 t" "same_shape u t"
  shows "\<forall>r \<in> set u. r \<noteq> []"
proof
  fix r assume "r \<in> set u"
  moreover have "rect u" "shape1 u = shape1 t"
    using assms(1,3) by (simp_all add: same_shape_rect same_shape_shape1)
  ultimately have "length r = shape1 t" by (simp add: rect_iff)
  with assms(2) show "r \<noteq> []" by auto
qed

lemma append_one_column:
  assumes "rect toks" "0 < shape1 toks" "length nv = length toks"
    "list_all (\<lambda>r. \<exists>i. r = [i] \<and> 0 \<le> i \<and> i < int v) nv"
    "list_all (list_all (\<lambda>i. 0 \<le> i \<and> i < int v)) toks"
  shows "rect (map2 (@) toks nv)" "shape1 (map2 (@) toks nv) = shape1 toks + 1"
    "length (map2 (@) toks nv) = length toks"
    "list_all (list_all (\<lambda>i. 0 \<le> i \<and> i < int v)) (map2 (@) toks nv)"
proof -
  let ?c = "map2 (@) toks nv"
  have len: "length ?c = length toks" using assms(3) by simp
  have row: "length (?c ! k) = shape1 toks + 1 \<and> list_all (\<lambda>i. 0 \<le> i \<and> i < int v) (?c ! k)"
    if "k < length toks" for k
  proof -
    from that assms(3,4) obtain i where i: "nv ! k = [i]" "0 \<le> i" "i < int v"
      by (auto simp: list_all_length)
    from that assms(1) have "length (toks ! k) = shape1 toks" by (simp add: rect_iff)
    moreover from that assms(5) have "list_all (\<lambda>i. 0 \<le> i \<and> i < int v) (toks ! k)"
      by (simp add: list_all_length)
    ultimately show ?thesis using that assms(3) i by simp
  qed
  from assms(2) have ne: "toks \<noteq> []" by (cases toks) simp_all
  then have "?c \<noteq> []" using assms(3) by (cases toks; cases nv) simp_all
  then have "shape1 ?c = length (?c ! 0)" by (cases ?c) simp_all
  with row[of 0] ne show s: "shape1 ?c = shape1 toks + 1" by simp
  show "rect ?c" unfolding rect_iff s using row len by (auto simp: in_set_conv_nth)
  show "length ?c = length toks" by (rule len)
  show "list_all (list_all (\<lambda>i. 0 \<le> i \<and> i < int v)) ?c"
    using row len by (simp add: list_all_length)
qed

lemma decode_step_total:
  fixes w :: "'g world"
  assumes ok: "model_ok d (self w)" and dev: "device (self w) = param_device (self w)"
    and src: "features d src" "rect src" "0 < shape1 src" "same_shape msk src"
      "length src = length toks"
    and tk: "rect toks" "0 < shape1 toks" "shape1 toks \<le> length (pe (self w))"
      "list_all (list_all (\<lambda>i. 0 \<le> i \<and> i < int (length (move_embed (self w))))) toks"
    and sel: "sel_in_vocab (length (move_embed (self w))) sel"
  shows "\<exists>toks' w'. decode_step src msk sel i (toks, w) = Inr (toks', w') \<and>
           rect toks' \<and> shape1 toks' = shape1 toks + 1 \<and> length toks' = length toks \<and>
           list_all (list_all (\<lambda>i. 0 \<le> i \<and> i < int (length (move_embed (self w))))) toks'"
proof -
  let ?v = "length (move_embed (self w))"
  have "\<exists>r w'. action_embed toks w = Inr (r, w')"
    using dev tk(3,4) by (intro action_embed_total) (simp_all add: list_all_iff)
  then obtain decode w1 where ae: "action_embed toks w = Inr (decode, w1)" by blast
  note sh = action_embed_shape[OF ae ok tk(1)]
  have sw1: "same_weights (self w) (self w1)" using ae by (rule action_embed_frame)
  have ok1: "model_ok d (self w1)" using sw1 ok by (rule same_weights_model_ok)
  let ?zeros = "replicate (length decode) (replicate (shape1 decode) False)"
  have ld: "length decode = length toks" using sh(1) by (rule same_shape_length)
  have "transformer_input_ok d src decode (generate_square_subsequent_mask (shape1 decode))
          msk ?zeros"
    unfolding transformer_input_ok_def
    using src sh tk(2) ld zeros_same_shape[OF sh(3)] by simp
  moreover have "transformer_ok d (transformer (self w1))" using ok1 by (simp add: model_ok_def)
  ultimately obtain out where
    tr: "transformer (self w1) src decode (generate_square_subsequent_mask (shape1 decode))
          msk ?zeros = Inr out"
    using transformer_ok_total by blast
  let ?w2 = "w1\<lparr>calls := calls w1 @ [TransformerPassCall src decode msk ?zeros]\<rparr>"
  have tp: "transformer_pass src decode msk ?zeros w1 = Inr (out, ?w2)"
    using tr by (simp add: transformer_pass_Inr)
  have so: "same_shape out decode" using transformer_pass_shape(1)[OF tp ok1] .
  have lo: "length out = length toks" using same_shape_length[OF so] ld by simp
  let ?dist = "apply_to_dist (self ?w2) out"
  have "same_shape ?dist out" by (simp add: apply_to_dist_def)
  then have "same_shape ?dist decode" using so by (rule same_shape_trans)
  then have ne: "\<forall>r \<in> set ?dist. r \<noteq> []"
    using rows_nonempty[OF sh(3)] sh(4) tk(2) by simp
  let ?logits = "map last ?dist"
  have lp: "last_position ?dist = Inr ?logits" using ne by (simp add: last_position_Inr)
  have lin: "linear_ok d ?v (to_dist (self w))" using ok by (simp add: model_ok_def)
  have "length (last r) = ?v" if "r \<in> set ?dist" for r
  proof -
    from that ne have "last r \<in> set r" by simp
    with that obtain h where "last r = log_softmax (apply_linear (to_dist (self w)) h)"
      by (auto simp: apply_to_dist_def same_weights_fields[OF sw1])
    then show ?thesis using lin by (simp add: linear_ok_def length_apply_linear)
  qed
  then have "list_all (\<lambda>r. length r = ?v) ?logits" by (simp add: list_all_iff)
  with sel obtain nv g' where
    s: "sel ?logits (rng ?w2) = Inr (nv, g')" "length nv = length ?logits"
      "list_all (\<lambda>r. \<exists>i. r = [i] \<and> 0 \<le> i \<and> i < int ?v) nv"
    unfolding sel_in_vocab_def by blast
  have ln: "length nv = length toks" using s(2) lo by (simp add: apply_to_dist_def)
  have c1: "cat1 toks nv = Inr (map2 (@) toks nv)" using ln by (simp add: cat1_Inr)
  have "\<forall>r \<in> set nv. \<forall>i \<in> set r. 0 \<le> i \<and> i < int (length (move_embed (self ?w2)))"
    using s(3) by (auto simp: list_all_iff same_weights_fields[OF sw1])
  then have em: "embedding (move_embed (self ?w2)) nv =
      Inr (map (map (\<lambda>i. move_embed (self ?w2) ! nat i)) nv)"
    by (simp add: embedding_Inr)
  let ?e = "map (map (apply_linear (to_emb_move (self ?w2))))
             (map (map (\<lambda>i. move_embed (self ?w2) ! nat i)) nv)"
  have c2: "cat1 decode ?e = Inr (map2 (@) decode ?e)" using ln ld by (simp add: cat1_Inr)
  have "decode_step src msk sel i (toks, w) = Inr (map2 (@) toks nv, ?w2\<lparr>rng := g'\<rparr>)"
    unfolding decode_step_Inr using ae tp lp s(1) c1 em c2 by blast
  moreover note append_one_column[OF tk(1,2) ln s(3) tk(4)]
  ultimately show ?thesis by blast
qed

lemma decode_loop_total:
  fixes w :: "'g world"
  assumes ok: "model_ok d (self w)" and dev: "device (self w) = param_device (self w)"
    and src: "features d src" "rect src" "0 < shape1 src" "same_shape msk src"
      "length src = length toks"
    and tk: "rect toks" "0 < shape1 toks"
      "list_all (list_all (\<lambda>i. 0 \<le> i \<and> i < int (length (move_embed (self w))))) toks"
    and bound: "shape1 toks + length xs \<le> Suc (length (pe (self w)))"
    and sel: "sel_in_vocab (length (move_embed (self w))) sel"
  shows "\<exists>toks' w'. for_each xs (decode_step src msk sel) (toks, w) = Inr (toks', w')"
  using ok dev src(5) tk bound sel
proof (induction xs arbitrary: toks w)
  case Nil
  then show ?case by simp
next
  case (Cons x xs)
  have le: "shape1 toks \<le> length (pe (self w))" using Cons.prems(7) by simp
  from decode_step_total[OF Cons.prems(1,2) src(1-4) Cons.prems(3,4,5) le Cons.prems(6,8), of x]
  obtain t1 w1 where st: "decode_step src msk sel x (toks, w) = Inr (t1, w1)"
    and f: "rect t1" "shape1 t1 = shape1 toks + 1" "length t1 = length toks"
      "list_all (list_all (\<lambda>i. 0 \<le> i \<and> i < int (length (move_embed (self w))))) t1"
    by blast
  have sw: "same_weights (self w) (self w1)" using st by (rule decode_step_frame)
  note fl = same_weights_fields[OF sw]
  have "\<exists>toks' w'. for_each xs (decode_step src msk sel) (t1, w1) = Inr (toks', w')"
  proof (rule Cons.IH)
    show "model_ok d (self w1)" using sw Cons.prems(1) by (rule same_weights_model_ok)
    show "device (self w1) = param_device (self w1)" using Cons.prems(2) by (simp add: fl)
    show "length src = length t1" using Cons.prems(3) f(3) by simp
    show "rect t1" by (rule f(1))
    show "0 < shape1 t1" using f(2) by simp
    show "list_all (list_all (\<lambda>i. 0 \<le> i \<and> i < int (length (move_embed (self w1))))) t1"
      using f(4) by (simp add: fl)
    show "shape1 t1 + length xs \<le> Suc (length (pe (self w1)))"
      using Cons.prems(7) f(2) by (simp add: fl)
    show "sel_in_vocab (length (move_embed (self w1))) sel" using Cons.prems(8) by (simp add: fl)
  qed
  with st show ?case by (auto simp: for_each_Cons_Inr)
qed

lemma inference'_total:
  fixes w :: "'g world"
  assumes ok: "model_ok d (self w)" and dev: "device (self w) = param_device (self w)"
    and vb: "0 < length (board_embed (self w))"
    and ids: "ids_ok (length (board_embed (self w))) state"
    and rs: "rect state" and ls: "0 < shape1 state" "shape1 state \<le> length (pe (self w))"
    and start: "start_token (self w) = [[sid]]" "0 \<le> sid" "sid < int (length (move_embed (self w)))"
    and steps: "max_len \<le> int (length (pe (self w)))"
    and sel: "sel_in_vocab (length (move_embed (self w))) sel"
  shows "\<exists>toks w'. inference' state max_len sel w = Inr (toks, w')"
proof -
  let ?ms = "not_mask_times (get_mask state (- 1)) state"
  let ?msk = "get_mask state (- 1)"
  obtain src w1 where se: "state_embed ?ms w = Inr (src, w1)"
    using state_embed_total[of w ?ms] dev masked_ids_in_range[OF ids vb] ls by auto
  have sw: "same_weights (self w) (self w1)" using se by (rule state_embed_frame)
  note fl = same_weights_fields[OF sw]
  have sh: "same_shape src ?ms" "features d src" "rect src" "shape1 src = shape1 ?ms"
    using state_embed_shape[OF se ok] rs by simp_all
  let ?t0 = "concat (replicate (length state) (start_token (self w1)))"
  have t0: "?t0 = replicate (length state) [sid]" using start(1) by (simp add: fl)
  from ls(1) have ne: "state \<noteq> []" by (cases state) simp_all
  have "same_shape src state" using sh(1) by (rule same_shape_trans) simp
  then have "same_shape state src" by (rule same_shape_sym)
  then have m: "same_shape ?msk src" by (rule same_shape_trans[OF same_shape_get_mask])
  have "\<exists>toks' w'. for_each [0..<nat max_len] (decode_step src ?msk sel) (?t0, w1) = Inr (toks', w')"
  proof (rule decode_loop_total[where d = d])
    show "model_ok d (self w1)" using sw ok by (rule same_weights_model_ok)
    show "device (self w1) = param_device (self w1)" using dev by (simp add: fl)
    show "features d src" "rect src" by (rule sh(2), rule sh(3))
    show "0 < shape1 src" using sh(4) ls(1) by simp
    show "same_shape ?msk src" by (rule m)
    show "length src = length ?t0" using same_shape_length[OF sh(1)] by (simp add: t0)
    show "rect ?t0" unfolding t0 by (rule rect_uniform[of _ 1]) simp
    show "0 < shape1 ?t0" unfolding t0 using ne by (cases state) simp_all
    show "list_all (list_all (\<lambda>i. 0 \<le> i \<and> i < int (length (move_embed (self w1))))) ?t0"
      unfolding t0 using start(2,3) by (simp add: fl list_all_iff)
    show "shape1 ?t0 + length [0..<nat max_len] \<le> Suc (length (pe (self w1)))"
      unfolding t0 using ne steps by (cases state) (simp_all add: fl)
    show "sel_in_vocab (length (move_embed (self w1))) sel" using sel by (simp add: fl)
  qed
  with se show ?thesis unfolding inference'_Inr by blast
qed

text \<open>
  Two worlds whose models have the same weights: every operation that returns in the one
  returns the same value in the other, whatever the generator state and the call record.
\<close>

lemma same_weights_after_migrate:
  assumes "same_weights m1 m2"
  shows "m2\<lparr>pe_device := p\<rparr> = m1\<lparr>pe_device := p\<rparr>"
proof -
  from assms have "m2 = m1\<lparr>pe_device := pe_device m2\<rparr>" by (simp add: same_weights_def)
  then have "m2\<lparr>pe_device := p\<rparr> = m1\<lparr>pe_device := pe_device m2\<rparr>\<lparr>pe_device := p\<rparr>" by simp
  then show ?thesis by simp
qed

lemma state_embed_sim:
  assumes sw: "same_weights (self w1) (self w2)" and r: "state_embed s w1 = Inr (r, w1')"
  shows "\<exists>w2'. state_embed s w2 = Inr (r, w2') \<and> same_weights (self w1') (self w2')"
proof -
  note fl = same_weights_fields[OF sw]
  let ?w2' = "w2\<lparr>self := (self w2)\<lparr>pe_device := param_device (self w2)\<rparr>,
           calls := calls w2 @ [StateEmbedCall s]\<rparr>"
  from r have "state_embed s w2 = Inr (r, ?w2')"
    by (simp add: state_embed_Inr fl)
  moreover from r have "self w1' = (self w1)\<lparr>pe_device := param_device (self w1)\<rparr>"
    by (simp add: state_embed_Inr)
  then have "self ?w2' = self w1'"
    using same_weights_after_migrate[OF sw, of "param_device (self w1)"] by (simp add: fl)
  then have "same_weights (self w1') (self ?w2')" by simp
  ultimately show ?thesis by blast
qed

lemma action_embed_sim:
  assumes sw: "same_weights (self w1) (self w2)" and r: "action_embed s w1 = Inr (r, w1')"
  shows "\<exists>w2'. action_embed s w2 = Inr (r, w2') \<and> same_weights (self w1') (self w2')"
proof -
  note fl = same_weights_fields[OF sw]
  let ?w2' = "w2\<lparr>self := (self w2)\<lparr>pe_device := param_device (self w2)\<rparr>,
           calls := calls w2 @ [ActionEmbedCall s]\<rparr>"
  from r have "action_embed s w2 = Inr (r, ?w2')"
    by (simp add: action_embed_Inr fl)
  moreover from r have "self w1' = (self w1)\<lparr>pe_device := param_device (self w1)\<rparr>"
    by (simp add: action_embed_Inr)
  then have "self ?w2' = self w1'"
    using same_weights_after_migrate[OF sw, of "param_device (self w1)"] by (simp add: fl)
  then have "same_weights (self w1') (self ?w2')" by simp
  ultimately show ?thesis by blast
qed

lemma transformer_pass_sim:
  assumes sw: "same_weights (self w1) (self w2)"
    and r: "transformer_pass src tgt sm tpm w1 = Inr (out, w1')"
  shows "\<exists>w2'. transformer_pass src tgt sm tpm w2 = Inr (out, w2') \<and>
           same_weights (self w1') (self w2')"
  using r sw by (simp add: transformer_pass_Inr same_weights_fields[OF sw])

lemma decode_step_sim:
  fixes w1 w2 :: "'g world"
  assumes sw: "same_weights (self w1) (self w2)"
    and st: "decode_step src msk max_action_sel i (toks, w1) = Inr (toks', w1')"
  shows "\<exists>w2'. decode_step src msk max_action_sel i (toks, w2) = Inr (toks', w2') \<and>
           same_weights (self w1') (self w2')"
proof -
  from st obtain decode and a1 :: "'g world" and out and b1 :: "'g world"
    and logits nv g e decode' where
    ae: "action_embed toks w1 = Inr (decode, a1)" and
    tp: "transformer_pass src decode msk
          (replicate (length decode) (replicate (shape1 decode) False)) a1 = Inr (out, b1)" and
    lp: "last_position (apply_to_dist (self b1) out) = Inr logits" and
    sl: "max_action_sel logits (rng b1) = Inr (nv, g)" and
    c1: "cat1 toks nv = Inr toks'" and
    em: "embedding (move_embed (self b1)) nv = Inr e" and
    c2: "cat1 decode (map (map (apply_linear (to_emb_move (self b1)))) e) = Inr decode'" and
    w1': "w1' = b1\<lparr>rng := g\<rparr>"
    unfolding decode_step_Inr by blast
  from action_embed_sim[OF sw ae] obtain a2 where
    ae2: "action_embed toks w2 = Inr (decode, a2)" and sa: "same_weights (self a1) (self a2)"
    by blast
  from transformer_pass_sim[OF sa tp] obtain b2 where
    tp2: "transformer_pass src decode msk
          (replicate (length decode) (replicate (shape1 decode) False)) a2 = Inr (out, b2)"
    and sb: "same_weights (self b1) (self b2)" by blast
  note fl = same_weights_fields[OF sb]
  have lp2: "last_position (apply_to_dist (self b2) out) = Inr logits"
    using lp by (simp add: apply_to_dist_def fl)
  have sl2: "max_action_sel logits (rng b2) = Inr (nv, rng b2)"
    using sl by (simp add: max_action_sel_Inr)
  have em2: "embedding (move_embed (self b2)) nv = Inr e" using em by (simp add: fl)
  have c22: "cat1 decode (map (map (apply_linear (to_emb_move (self b2)))) e) = Inr decode'"
    using c2 by (simp add: fl)
  have "decode_step src msk max_action_sel i (toks, w2) = Inr (toks', b2\<lparr>rng := rng b2\<rparr>)"
    unfolding decode_step_Inr using ae2 tp2 lp2 sl2 c1 em2 c22 by blast
  moreover have "same_weights (self w1') (self (b2\<lparr>rng := rng b2\<rparr>))" using sb w1' by simp
  ultimately show ?thesis by blast
qed

lemma decode_loop_sim:
  fixes w1 w2 :: "'g world"
  assumes "same_weights (self w1) (self w2)"
    "for_each xs (decode_step src msk max_action_sel) (toks, w1) = Inr (toks', w1')"
  shows "\<exists>w2'. for_each xs (decode_step src msk max_action_sel) (toks, w2) = Inr (toks', w2') \<and>
           same_weights (self w1') (self w2')"
  using assms
proof (induction xs arbitrary: toks w1 w2)
  case Nil
  then show ?case by simp
next
  case (Cons x xs)
  from Cons.prems(2) obtain t1 and a1 :: "'g world" where
    st: "decode_step src msk max_action_sel x (toks, w1) = Inr (t1, a1)" and
    rest: "for_each xs (decode_step src msk max_action_sel) (t1, a1) = Inr (toks', w1')"
    unfolding for_each_Cons_Inr by auto
  from decode_step_sim[OF Cons.prems(1) st] obtain a2 where
    st2: "decode_step src msk max_action_sel x (toks, w2) = Inr (t1, a2)"
    and sa: "same_weights (self a1) (self a2)" by blast
  from Cons.IH[OF sa rest] obtain w2' where
    "for_each xs (decode_step src msk max_action_sel) (t1, a2) = Inr (toks', w2')"
    "same_weights (self w1') (self w2')" by blast
  with st2 show ?case by (auto simp: for_each_Cons_Inr)
qed

lemma inference_sim:
  fixes w1 w2 :: "'g world"
  assumes sw: "same_weights (self w1) (self w2)"
    and r: "inference state max_len w1 = Inr (toks, w1')"
  shows "\<exists>w2'. inference state max_len w2 = Inr (toks, w2')"
proof -
  let ?ms = "not_mask_times (get_mask state (- 1)) state"
  from r obtain src and a1 :: "'g world" where
    se: "state_embed ?ms w1 = Inr (src, a1)" and
    lp: "for_each [0..<nat max_len] (decode_step src (get_mask state (- 1)) max_action_sel)
          (concat (replicate (length state) (start_token (self a1))), a1) = Inr (toks, w1')"
    unfolding inference_def inference'_Inr by blast
  from state_embed_sim[OF sw se] obtain a2 where
    se2: "state_embed ?ms w2 = Inr (src, a2)" and sa: "same_weights (self a1) (self a2)"
    by blast
  from decode_loop_sim[OF sa lp] obtain w2' where
    "for_each [0..<nat max_len] (decode_step src (get_mask state (- 1)) max_action_sel)
          (concat (replicate (length state) (start_token (self a1))), a2) = Inr (toks, w2')"
    by blast
  with se2 show ?thesis
    unfolding inference_def inference'_Inr by (auto simp: same_weights_fields[OF sa])
qed

text \<open>The model object after a decode.\<close>

lemma decode_step_self:
  assumes "decode_step src msk sel i (toks, w) = Inr (toks', w')"
  shows "self w' = (self w)\<lparr>pe_device := param_device (self w)\<rparr>"
proof -
  from assms obtain decode w1 out w2 g where
    ae: "action_embed toks w = Inr (decode, w1)" and
    tp: "transformer_pass src decode msk
          (replicate (length decode) (replicate (shape1 decode) False)) w1 = Inr (out, w2)" and
    w': "w' = w2\<lparr>rng := g\<rparr>"
    unfolding decode_step_Inr by blast
  have "self w' = self w1" using transformer_pass_frame(1)[OF tp] w' by simp
  moreover have "self w1 = (self w)\<lparr>pe_device := param_device (self w)\<rparr>"
    using ae by (simp add: action_embed_Inr)
  ultimately show ?thesis by simp
qed

lemma decode_loop_self:
  assumes "for_each xs (decode_step src msk sel) (t0, w0) = Inr (toks, w')"
    "pe_device (self w0) = param_device (self w0)"
  shows "self w' = self w0"
  using assms
proof (induction xs arbitrary: t0 w0)
  case Nil
  then show ?case by simp
next
  case (Cons x xs)
  from Cons.prems(1) obtain t1 w1 where
    st: "decode_step src msk sel x (t0, w0) = Inr (t1, w1)" and
    rest: "for_each xs (decode_step src msk sel) (t1, w1) = Inr (toks, w')"
    unfolding for_each_Cons_Inr by auto
  have "self w1 = (self w0)\<lparr>pe_device := pe_device (self w0)\<rparr>"
    using decode_step_self[OF st] Cons.prems(2) by simp
  then have s1: "self w1 = self w0" by simp
  then have "self w' = self w1" using Cons.IH[OF rest] Cons.prems(2) by simp
  with s1 show ?case by simp
qed

lemma inference'_self:
  assumes "inference' state max_len sel w = Inr (toks, w')"
  shows "self w' = (self w)\<lparr>pe_device := param_device (self w)\<rparr>"
proof -
  from assms obtain src w1 where
    se: "state_embed (not_mask_times (get_mask state (- 1)) state) w = Inr (src, w1)" and
    lp: "for_each [0..<nat max_len] (decode_step src (get_mask state (- 1)) sel)
          (concat (replicate (length state) (start_token (self w1))), w1) = Inr (toks, w')"
    unfolding inference'_Inr by blast
  from se have s1: "self w1 = (self w)\<lparr>pe_device := param_device (self w)\<rparr>"
    by (simp add: state_embed_Inr)
  then have "pe_device (self w1) = param_device (self w1)" by simp
  with lp have "self w' = self w1" by (rule decode_loop_self)
  with s1 show ?thesis by simp
qed

text \<open>The small model decodes.\<close>

lemma toy_inference'_returns:
  assumes "sel_in_vocab 2 sel" "max_len \<le> 1024" "same_weights toy_model (self w)"
  shows "\<exists>toks w'. inference' [[1, 0, - 1]] max_len sel w = Inr (toks, w')"
proof -
  note fl = same_weights_fields[OF assms(3)]
  have ok: "model_ok 8 (self w)" using assms(3) toy_model_ok by (rule same_weights_model_ok)
  show ?thesis
    by (rule inference'_total[OF ok, where sid = 0])
       (use assms(1,2) in \<open>simp_all add: fl toy_model_fields ids_ok_def rect_def\<close>)
qed

section \<open>The decoder: length, encoding of the source, determinism, frame\<close>




text \<open>
  Claim C4. In a decode that returns, the state is encoded (embedded, projected and
  given its positions, by \<open>_state_embed\<close>) exactly once, before any decode step: the
  first call the decode makes is \<open>_state_embed\<close> on the masked state, no later call is a
  \<open>_state_embed\<close>, and every one of the \<open>max_len\<close> calls of \<open>_transformer_pass\<close>
  receives as its source the very value that one call returned. (What the transformer
  module does with its source inside a pass is not visible here.)
\<close>

theorem source_encoded_once:
  assumes "inference' state max_len sel w = Inr (toks, w')"
  shows "\<exists>src w1 new.
           state_embed (not_mask_times (get_mask state (- 1)) state) w = Inr (src, w1) \<and>
           calls w' = calls w @ StateEmbedCall (not_mask_times (get_mask state (- 1)) state) # new \<and>
           concat (map state_embed_args new) = [] \<and>
           concat (map pass_sources new) = replicate (nat max_len) src"
proof -
  let ?ms = "not_mask_times (get_mask state (- 1)) state"
  from assms obtain src w1 where
    se: "state_embed ?ms w = Inr (src, w1)" and
    lp: "for_each [0..<nat max_len] (decode_step src (get_mask state (- 1)) sel)
          (concat (replicate (length state) (start_token (self w1))), w1) = Inr (toks, w')"
    unfolding inference'_Inr by blast
  from decode_loop_calls[OF lp] obtain new where n:
    "calls w' = calls w1 @ new" "concat (map state_embed_args new) = []"
    "concat (map pass_sources new) = replicate (nat max_len) src"
    by auto
  have "calls w' = calls w @ StateEmbedCall ?ms # new"
    using n(1) state_embed_frame(3)[OF se] by simp
  with se n(2,3) show ?thesis by blast
qed

theorem source_encoded_once_witness:
  "\<exists>toks w' src.
     inference' [[1, 0, - 1]] 3 max_action_sel toy_world = Inr (toks, w') \<and>
     concat (map state_embed_args (calls w')) = [[[1, 0, 0]]] \<and>
     concat (map pass_sources (calls w')) = [src, src, src]"
proof -
  obtain toks w' where r: "inference' [[1, 0, - 1]] 3 max_action_sel toy_world = Inr (toks, w')"
    using toy_inference'_returns[of max_action_sel 3 toy_world] sel_in_vocab_max_action_sel[of 2]
    by (auto simp: toy_world_def)
  from source_encoded_once[OF r] obtain src new where
    "calls w' = calls toy_world @
       StateEmbedCall (not_mask_times (get_mask [[1, 0, - 1]] (- 1)) [[1, 0, - 1]]) # new"
    "concat (map state_embed_args new) = []"
    "concat (map pass_sources new) = replicate (nat 3) src"
    by blast
  then have "concat (map state_embed_args (calls w')) = [[[1, 0, 0]]]"
    "concat (map pass_sources (calls w')) = [src, src, src]"
    by (simp_all add: toy_world_def not_mask_times_get_mask numeral_3_eq_3)
  with r show ?thesis by blast
qed

text \<open>
  Claim C9. A call of \<open>inference\<close> or \<open>sample\<close> that returns leaves the model object
  as it was but for the device of \<open>self.pe\<close>, which is then the device of the
  parameters; in particular every parameter (embedding tables, projections, transformer,
  output projection) is unchanged.
\<close>

theorem decode_leaves_parameters:
  "(inference state max_len w = Inr (toks, w') \<longrightarrow>
      self w' = (self w)\<lparr>pe_device := param_device (self w)\<rparr> \<and>
      parameters (self w') = parameters (self w)) \<and>
   (sample sampler state max_len w = Inr (toks, w') \<longrightarrow>
      self w' = (self w)\<lparr>pe_device := param_device (self w)\<rparr> \<and>
      parameters (self w') = parameters (self w))"
proof -
  have "self w' = (self w)\<lparr>pe_device := param_device (self w)\<rparr> \<and>
      parameters (self w') = parameters (self w)"
    if r: "inference' state max_len sel w = Inr (toks, w')" for sel
  proof -
    from r have "same_weights (self w) (self w')" by (rule inference'_frame)
    then have "parameters (self w') = parameters (self w)" by (rule same_weights_parameters)
    with inference'_self[OF r] show ?thesis by simp
  qed
  then show ?thesis unfolding inference_def sample_def by blast
qed

theorem decode_leaves_parameters_witness:
  "(\<exists>toks w'. inference [[1, 0, - 1]] 3 moved_world = Inr (toks, w') \<and>
      parameters (self w') = parameters (self moved_world) \<and>
      pe_device (self moved_world) = CUDA \<and> pe_device (self w') = CPU) \<and>
   (\<exists>toks w'. sample toy_sampler [[1, 0, - 1]] 3 moved_world = Inr (toks, w') \<and>
      parameters (self w') = parameters (self moved_world))"
proof -
  have sw: "same_weights toy_model (self moved_world)" by (simp add: moved_world_def)
  obtain t1 w1 where r1: "inference [[1, 0, - 1]] 3 moved_world = Inr (t1, w1)"
    using toy_inference'_returns[OF sel_in_vocab_max_action_sel[of 2] _ sw, of 3]
    by (auto simp: inference_def)
  obtain t2 w2 where r2: "sample toy_sampler [[1, 0, - 1]] 3 moved_world = Inr (t2, w2)"
    using toy_inference'_returns[OF sel_in_vocab_sample_action_sel[OF toy_sampler_ok, of 2] _ sw, of 3]
    by (auto simp: sample_def)
  from decode_leaves_parameters[of "[[1, 0, - 1]]" 3 moved_world t1 w1 toy_sampler] r1
  have a: "self w1 = (self moved_world)\<lparr>pe_device := param_device (self moved_world)\<rparr>"
    "parameters (self w1) = parameters (self moved_world)" by blast+
  from decode_leaves_parameters[of "[[1, 0, - 1]]" 3 moved_world t2 w2 toy_sampler] r2
  have b: "parameters (self w2) = parameters (self moved_world)" by blast
  have "pe_device (self moved_world) = CUDA" by (simp add: moved_world_def)
  moreover have "pe_device (self w1) = CPU"
    unfolding a(1) by (simp add: moved_world_def toy_model_def)
  ultimately show ?thesis using r1 r2 a(2) b by blast
qed

text \<open>
  Claim C7. The arg-max decoder is deterministic: in two worlds whose models have the same
  weights (whatever the state of the random generator and whatever was called before),
  \<open>inference\<close> on the same state and \<open>max_len\<close> returns the same tokens or raises in
  both, and a second call after the first returns the same tokens again. The policy leaves
  the generator alone and picks, in every row, \<open>argmax\<close>, which is the lowest index of a
  maximal logit.
\<close>

theorem inference_deterministic:
  fixes w1 w2 :: "'g world"
  assumes "same_weights (self w1) (self w2)"
  shows "(\<forall>toks w1'. inference state max_len w1 = Inr (toks, w1') \<longrightarrow>
            (\<exists>w2'. inference state max_len w2 = Inr (toks, w2')) \<and>
            (\<exists>w1''. inference state max_len w1' = Inr (toks, w1''))) \<and>
         (isl (inference state max_len w1) \<longleftrightarrow> isl (inference state max_len w2)) \<and>
         (\<forall>logits g nv g'. max_action_sel logits (g :: 'g) = Inr (nv, g') \<longrightarrow>
            g' = g \<and> nv = map (\<lambda>r. [int (argmax r)]) logits) \<and>
         (\<forall>xs. xs \<noteq> [] \<longrightarrow>
            argmax xs < length xs \<and> (\<forall>j < length xs. xs ! j \<le> xs ! argmax xs) \<and>
            (\<forall>j < argmax xs. xs ! j < xs ! argmax xs))"
proof -
  have c1: "\<forall>toks w1'. inference state max_len w1 = Inr (toks, w1') \<longrightarrow>
            (\<exists>w2'. inference state max_len w2 = Inr (toks, w2')) \<and>
            (\<exists>w1''. inference state max_len w1' = Inr (toks, w1''))"
  proof (intro allI impI conjI)
    fix toks and w1' :: "'g world"
    assume r: "inference state max_len w1 = Inr (toks, w1')"
    show "\<exists>w2'. inference state max_len w2 = Inr (toks, w2')"
      using assms r by (rule inference_sim)
    have "same_weights (self w1) (self w1')"
      using r unfolding inference_def by (rule inference'_frame)
    then show "\<exists>w1''. inference state max_len w1' = Inr (toks, w1'')"
      using r by (rule inference_sim)
  qed
  have sym: "same_weights (self w2) (self w1)"
    using assms unfolding same_weights_def by (metis model.surjective model.update_convs(6))
  have one: "\<not> isl (inference state max_len b)"
    if "same_weights (self a) (self b)" "\<not> isl (inference state max_len a)"
    for a b :: "'g world"
  proof -
    from that(2) obtain toks a' where "inference state max_len a = Inr (toks, a')"
      by (cases "inference state max_len a") auto
    from inference_sim[OF that(1) this] show ?thesis by auto
  qed
  have c2: "isl (inference state max_len w1) \<longleftrightarrow> isl (inference state max_len w2)"
    using one[OF assms] one[OF sym] by blast
  have c3: "\<forall>logits g nv g'. max_action_sel logits (g :: 'g) = Inr (nv, g') \<longrightarrow>
            g' = g \<and> nv = map (\<lambda>r. [int (argmax r)]) logits"
    by (simp add: max_action_sel_Inr)
  have c4: "\<forall>xs. xs \<noteq> [] \<longrightarrow>
            argmax xs < length xs \<and> (\<forall>j < length xs. xs ! j \<le> xs ! argmax xs) \<and>
            (\<forall>j < argmax xs. xs ! j < xs ! argmax xs)"
    using argmax_first_max by blast
  show ?thesis by (intro conjI) (rule c1 c2 c3 c4)+
qed

theorem inference_deterministic_witness:
  "same_weights (self toy_world) (self (toy_world\<lparr>rng := 7, calls := [StateEmbedCall []]\<rparr>)) \<and>
   (\<exists>toks w1' w2'.
      inference [[1, 0, - 1]] 3 toy_world = Inr (toks, w1') \<and>
      inference [[1, 0, - 1]] 3 (toy_world\<lparr>rng := 7, calls := [StateEmbedCall []]\<rparr>)
        = Inr (toks, w2')) \<and>
   argmax [1, 3, 3] = 1"
proof -
  let ?w2 = "toy_world\<lparr>rng := 7, calls := [StateEmbedCall []]\<rparr>"
  have sw: "same_weights (self toy_world) (self ?w2)" by simp
  obtain toks w1' where r: "inference [[1, 0, - 1]] 3 toy_world = Inr (toks, w1')"
    using toy_inference'_returns[OF sel_in_vocab_max_action_sel[of 2], of 3 toy_world]
    by (auto simp: inference_def toy_world_def)
  from inference_deterministic[OF sw, of "[[1, 0, - 1]]" 3] r
  obtain w2' where "inference [[1, 0, - 1]] 3 ?w2 = Inr (toks, w2')" by blast
  moreover have "argmax [1, 3, 3] = 1" by (simp add: argmax_def)
  ultimately show ?thesis using sw r by blast
qed

section \<open>Lemmas on the training loop of train.py\<close>

declare str_nat.simps [simp del]

text \<open>File names.\<close>

lemma digit_inj: "a < 10 \<Longrightarrow> b < 10 \<Longrightarrow> digit a = digit b \<Longrightarrow> a = b"
proof -
  assume a: "a < 10" and b: "b < 10" and e: "digit a = digit b"
  have d: "distinct ''0123456789''" by simp
  have "length ''0123456789'' = 10" by simp
  with a b d e show "a = b" unfolding digit_def
    by (metis nth_eq_iff_index_eq)
qed

lemma str_nat_nonempty: "str_nat n \<noteq> []"
  by (subst str_nat.simps) simp

lemma str_nat_inj: "str_nat a = str_nat b \<Longrightarrow> a = b"
proof (induction a arbitrary: b rule: str_nat.induct)
  case (1 n)
  show ?case
  proof (cases "n < 10")
    case True
    then have n: "str_nat n = [digit n]" by (subst str_nat.simps) simp
    show ?thesis
    proof (cases "b < 10")
      case b: True
      then have "str_nat b = [digit b]" by (subst str_nat.simps) simp
      with n "1.prems" True b show ?thesis by (auto dest: digit_inj)
    next
      case False
      then have "str_nat b = str_nat (b div 10) @ [digit (b mod 10)]"
        by (subst str_nat.simps) simp
      with n "1.prems" have "str_nat (b div 10) = []" by simp
      then show ?thesis using str_nat_nonempty by blast
    qed
  next
    case False
    then have n: "str_nat n = str_nat (n div 10) @ [digit (n mod 10)]"
      by (subst str_nat.simps) simp
    show ?thesis
    proof (cases "b < 10")
      case True
      then have "str_nat b = [digit b]" by (subst str_nat.simps) simp
      with n "1.prems" have "str_nat (n div 10) = []" by simp
      then show ?thesis using str_nat_nonempty by blast
    next
      case b: False
      then have "str_nat b = str_nat (b div 10) @ [digit (b mod 10)]"
        by (subst str_nat.simps) simp
      with n "1.prems" have e: "str_nat (n div 10) = str_nat (b div 10)"
        "digit (n mod 10) = digit (b mod 10)" by simp_all
      from "1.IH"[OF False e(1)] have "n div 10 = b div 10" .
      moreover from e(2) have "n mod 10 = b mod 10" by (intro digit_inj) simp_all
      ultimately show ?thesis by (metis div_mult_mod_eq)
    qed
  qed
qed

lemma model_file_inj: "model_file e = model_file e' \<Longrightarrow> e = e'"
  by (simp add: model_file_def str_nat_inj)

lemma model_file_not_opt_file: "model_file e \<noteq> opt_file"
  by (simp add: model_file_def opt_file_def)

text \<open>What one write, one training step and one epoch do to the files and the log.\<close>

lemma map_of_update: "map_of (AList.update k v al) = (map_of al)(k \<mapsto> v)"
  by (rule update_conv')

lemma log_write_facts:
  "log_path (log_write l s) = log_path s"
  "log_lines (log_write l s) = log_lines s @ [l]"
  "map_of (files (log_write l s)) = (map_of (files s))(log_path s \<mapsto> LogText (log_lines s @ [l]))"
  "model_params (log_write l s) = model_params s"
  "opt_state (log_write l s) = opt_state s"
  by (simp_all add: log_write_def Let_def map_of_update)

lemma torch_save_facts:
  "log_path (torch_save p c s) = log_path s"
  "log_lines (torch_save p c s) = log_lines s"
  "map_of (files (torch_save p c s)) = (map_of (files s))(p \<mapsto> c)"
  "model_params (torch_save p c s) = model_params s"
  "opt_state (torch_save p c s) = opt_state s"
  by (simp_all add: torch_save_def map_of_update)

lemma train_step_facts:
  "log_path (train_step ev e ib s) = log_path s"
  "\<exists>t loss. log_lines (train_step ev e ib s) = log_lines s @ [TRAIN e (fst ib) t loss]"
  "map_of (files (train_step ev e ib s)) =
     (map_of (files s))(log_path s \<mapsto> LogText (log_lines (train_step ev e ib s)))"
  by (auto simp: train_step_def Let_def log_write_facts split: prod.splits)

lemma train_steps_facts_aux:
  "log_path (fold (train_step ev e) (enumerate i bs) s) = log_path s \<and>
   (\<exists>new. log_lines (fold (train_step ev e) (enumerate i bs) s) = log_lines s @ new \<and>
      map kind new = map (TrainLine e) [i..<i + length bs]) \<and>
   (\<forall>p. p \<noteq> log_path s \<longrightarrow>
      map_of (files (fold (train_step ev e) (enumerate i bs) s)) p = map_of (files s) p) \<and>
   (bs \<noteq> [] \<or> map_of (files s) (log_path s) = Some (LogText (log_lines s)) \<longrightarrow>
      map_of (files (fold (train_step ev e) (enumerate i bs) s)) (log_path s) =
        Some (LogText (log_lines (fold (train_step ev e) (enumerate i bs) s))))"
proof (induction bs arbitrary: i s)
  case Nil
  then show ?case by simp
next
  case (Cons b bs)
  let ?s1 = "train_step ev e (i, b) s"
  let ?s' = "fold (train_step ev e) (enumerate (Suc i) bs) ?s1"
  note ih = Cons.IH[of "Suc i" ?s1]
  note st = train_step_facts[of ev e "(i, b)" s]
  from st(2) obtain t loss where l1: "log_lines ?s1 = log_lines s @ [TRAIN e i t loss]" by auto
  from ih obtain new where n: "log_lines ?s' = log_lines ?s1 @ new"
    "map kind new = map (TrainLine e) [Suc i..<Suc i + length bs]" by blast
  have a: "log_path ?s' = log_path s" using conjunct1[OF ih] st(1) by (rule trans)
  have b: "log_lines ?s' = log_lines s @ (TRAIN e i t loss # new)" using n(1) l1 by simp
  have "[i..<i + length (b # bs)] = i # [Suc i..<Suc i + length bs]"
    by (simp add: upt_conv_Cons del: upt_Suc)
  then have c: "map kind (TRAIN e i t loss # new) = map (TrainLine e) [i..<i + length (b # bs)]"
    using n(2) by (simp del: upt_Suc)
  from ih have ih3: "\<forall>p. p \<noteq> log_path ?s1 \<longrightarrow> map_of (files ?s') p = map_of (files ?s1) p"
    and ih4: "bs \<noteq> [] \<or> map_of (files ?s1) (log_path ?s1) = Some (LogText (log_lines ?s1)) \<longrightarrow>
      map_of (files ?s') (log_path ?s1) = Some (LogText (log_lines ?s'))"
    by blast+
  have d: "\<forall>p. p \<noteq> log_path s \<longrightarrow> map_of (files ?s') p = map_of (files s) p"
    using ih3 st(1,3) by simp
  have "map_of (files ?s1) (log_path ?s1) = Some (LogText (log_lines ?s1))"
    using st(1,3) by simp
  with ih4 have e: "map_of (files ?s') (log_path s) = Some (LogText (log_lines ?s'))"
    using st(1) by simp
  have "\<exists>new. log_lines ?s' = log_lines s @ new \<and>
      map kind new = map (TrainLine e) [i..<i + length (b # bs)]"
    using b c by blast
  with a d e show ?case by simp
qed

lemma train_steps_facts:
  fixes s :: "('p, 'o) train_state" and ev :: "('p, 'o, 'b) env" and e i :: nat and bs :: "'b list"
  defines "s' \<equiv> fold (train_step ev e) (enumerate i bs) s"
  shows "log_path s' = log_path s"
    "\<exists>new. log_lines s' = log_lines s @ new \<and>
       map kind new = map (TrainLine e) [i..<i + length bs]"
    "\<And>p. p \<noteq> log_path s \<Longrightarrow> map_of (files s') p = map_of (files s) p"
    "map_of (files s) (log_path s) = Some (LogText (log_lines s)) \<Longrightarrow>
       map_of (files s') (log_path s) = Some (LogText (log_lines s'))"
proof -
  note a = train_steps_facts_aux[of ev e i bs s, folded s'_def]
  show "log_path s' = log_path s" by (rule conjunct1[OF a])
  show "\<exists>new. log_lines s' = log_lines s @ new \<and>
       map kind new = map (TrainLine e) [i..<i + length bs]"
    by (rule conjunct1[OF conjunct2[OF a]])
  show "map_of (files s') p = map_of (files s) p" if "p \<noteq> log_path s" for p
    using conjunct1[OF conjunct2[OF conjunct2[OF a]]] that by blast
  show "map_of (files s') (log_path s) = Some (LogText (log_lines s'))"
    if "map_of (files s) (log_path s) = Some (LogText (log_lines s))"
    using conjunct2[OF conjunct2[OF conjunct2[OF a]]] that by blast
qed

lemma train_epoch_facts:
  fixes s :: "('p, 'o) train_state" and ev :: "('p, 'o, 'b) env" and e :: nat
  defines "s' \<equiv> train_epoch ev e s"
  shows "log_path s' = log_path s"
    "\<exists>new. log_lines s' = log_lines s @ new \<and>
       map kind new = TestLine (int e - 1) # map (TrainLine e) [0..<length (dataloader ev e)]"
    "map_of (files s') (model_file e) = Some (ModelState (model_params s'))"
    "map_of (files s') opt_file = Some (OptState (opt_state s'))"
    "\<And>p. p \<noteq> log_path s \<Longrightarrow> p \<noteq> model_file e \<Longrightarrow> p \<noteq> opt_file \<Longrightarrow>
       map_of (files s') p = map_of (files s) p"
    "log_path s \<noteq> model_file e \<Longrightarrow> log_path s \<noteq> opt_file \<Longrightarrow>
       map_of (files s') (log_path s) = Some (LogText (log_lines s'))"
proof -
  obtain acc loss where ev: "eval_model ev (model_params s) = (acc, loss)"
    by (cases "eval_model ev (model_params s)")
  define s2 where "s2 = log_write (TEST (int e - 1) (time ev (clock s)) acc)
      (s\<lparr>stdout := stdout s @ [PrintTest (int e - 1) acc loss], clock := Suc (clock s)\<rparr>)"
  define s3 where "s3 = fold (train_step ev e) (enumerate 0 (dataloader ev e)) s2"
  define s4 where "s4 = torch_save (model_file e) (ModelState (model_params s3)) s3"
  have s': "s' = torch_save opt_file (OptState (opt_state s4)) s4"
    unfolding s'_def train_epoch_def ev s4_def s3_def s2_def by (simp add: Let_def)
  have p2: "log_path s2 = log_path s" unfolding s2_def by (simp add: log_write_facts)
  have l2: "log_lines s2 = log_lines s @ [TEST (int e - 1) (time ev (clock s)) acc]"
    unfolding s2_def by (simp add: log_write_facts)
  have f2: "map_of (files s2) = (map_of (files s))(log_path s \<mapsto> LogText (log_lines s2))"
    unfolding s2_def by (simp add: log_write_facts)
  note st = train_steps_facts[where ev = ev and e = e and i = 0 and bs = "dataloader ev e" and s = s2,
      folded s3_def]
  from st(2) obtain new where n: "log_lines s3 = log_lines s2 @ new"
    "map kind new = map (TrainLine e) [0..<length (dataloader ev e)]" by auto
  have p3: "log_path s3 = log_path s" using st(1) p2 by (rule trans)
  have f3: "\<And>p. p \<noteq> log_path s \<Longrightarrow> map_of (files s3) p = map_of (files s) p"
    using st(3) unfolding p2 f2 by simp
  have "map_of (files s2) (log_path s2) = Some (LogText (log_lines s2))"
    unfolding p2 f2 by simp
  then have g3: "map_of (files s3) (log_path s) = Some (LogText (log_lines s3))"
    using st(4) unfolding p2 by blast
  have l': "log_lines s' = log_lines s3" "log_path s' = log_path s3"
    "model_params s' = model_params s3" "opt_state s' = opt_state s3"
    "map_of (files s') = (map_of (files s3))(model_file e \<mapsto> ModelState (model_params s3),
        opt_file \<mapsto> OptState (opt_state s3))"
    unfolding s' s4_def by (simp_all add: torch_save_facts)
  show "log_path s' = log_path s" using l'(2) p3 by (rule trans)
  have ll: "log_lines s' = log_lines s @ (TEST (int e - 1) (time ev (clock s)) acc # new)"
    unfolding l'(1) n(1) l2 by simp
  have mk: "map kind (TEST (int e - 1) (time ev (clock s)) acc # new) =
      TestLine (int e - 1) # map (TrainLine e) [0..<length (dataloader ev e)]"
    unfolding list.map kind.simps n(2) ..
  show "\<exists>new. log_lines s' = log_lines s @ new \<and>
       map kind new = TestLine (int e - 1) # map (TrainLine e) [0..<length (dataloader ev e)]"
    by (rule exI[of _ "TEST (int e - 1) (time ev (clock s)) acc # new"], rule conjI[OF ll mk])
  show "map_of (files s') (model_file e) = Some (ModelState (model_params s'))"
    using model_file_not_opt_file[of e] by (simp add: l')
  show "map_of (files s') opt_file = Some (OptState (opt_state s'))"
    by (simp add: l')
  show "map_of (files s') p = map_of (files s) p"
    if "p \<noteq> log_path s" "p \<noteq> model_file e" "p \<noteq> opt_file" for p
    using that f3 by (simp add: l')
  show "map_of (files s') (log_path s) = Some (LogText (log_lines s'))"
    if "log_path s \<noteq> model_file e" "log_path s \<noteq> opt_file"
    using that g3 by (simp add: l')
qed

text \<open>The start of \<open>main\<close> and the states after the epochs.\<close>

lemma main_startup_facts:
  assumes "main_startup ev path lm lo fs = Inr s0"
  shows "log_path s0 = path" "log_lines s0 = []"
    "map_of (files s0) = (map_of fs)(path \<mapsto> LogText [])"
proof -
  from assms obtain mp os where
    "s0 = \<lparr>files = AList.update path (LogText []) fs, model_params = mp,
            opt_state = os, log_path = path, log_lines = [], losses = [],
            stdout = [], clock = 0\<rparr>"
    unfolding main_startup_def bindE_eq_Inr by auto
  then show "log_path s0 = path" "log_lines s0 = []"
    "map_of (files s0) = (map_of fs)(path \<mapsto> LogText [])"
    by (simp_all add: map_of_update)
qed

lemma main_epochs_startup:
  assumes "main_startup ev path lm lo fs = Inr s0"
  shows "main_epochs ev path lm lo fs E = Inr (fold (train_epoch ev) [0..<E] s0)"
  using assms by (simp add: main_epochs_def)

lemma main_epochs_Inr:
  "main_epochs ev path lm lo fs E = Inr s \<longleftrightarrow>
     (\<exists>s0. main_startup ev path lm lo fs = Inr s0 \<and> s = fold (train_epoch ev) [0..<E] s0)"
  by (auto simp: main_epochs_def bindE_eq_Inr)

lemma epochs_Suc:
  "fold (train_epoch ev) [0..<Suc E] s0 = train_epoch ev E (fold (train_epoch ev) [0..<E] s0)"
  by simp

lemma epochs_log_path: "log_path (fold (train_epoch ev) [0..<E] s0) = log_path s0"
  by (induction E) (simp_all add: train_epoch_facts(1))

lemma epochs_log_kinds:
  "\<exists>new. log_lines (fold (train_epoch ev) [0..<E] s0) = log_lines s0 @ new \<and>
     map kind new =
       concat (map (\<lambda>e. TestLine (int e - 1) # map (TrainLine e) [0..<length (dataloader ev e)])
         [0..<E])"
proof (induction E)
  case 0
  then show ?case by simp
next
  case (Suc E)
  let ?s = "fold (train_epoch ev) [0..<E] s0"
  from Suc obtain new where n: "log_lines ?s = log_lines s0 @ new"
    "map kind new =
       concat (map (\<lambda>e. TestLine (int e - 1) # map (TrainLine e) [0..<length (dataloader ev e)])
         [0..<E])" by (elim exE conjE)
  from train_epoch_facts(2)[where ev = ev and e = E and s = ?s] obtain new' where n':
    "log_lines (train_epoch ev E ?s) = log_lines ?s @ new'"
    "map kind new' = TestLine (int E - 1) # map (TrainLine E) [0..<length (dataloader ev E)]"
    by (elim exE conjE)
  have a: "log_lines (fold (train_epoch ev) [0..<Suc E] s0) = log_lines s0 @ (new @ new')"
    unfolding epochs_Suc n'(1) n(1) by simp
  have b: "map kind (new @ new') =
       concat (map (\<lambda>e. TestLine (int e - 1) # map (TrainLine e) [0..<length (dataloader ev e)])
         [0..<Suc E])"
    unfolding map_append n(2) n'(2) by simp
  show ?case by (rule exI[of _ "new @ new'"], rule conjI[OF a b])
qed

lemma epochs_log_grows:
  "E \<le> E' \<Longrightarrow>
   \<exists>new. log_lines (fold (train_epoch ev) [0..<E'] s0) =
          log_lines (fold (train_epoch ev) [0..<E] s0) @ new"
proof (induction E')
  case 0
  then show ?case by simp
next
  case (Suc E')
  show ?case
  proof (cases "E = Suc E'")
    case True
    then show ?thesis by simp
  next
    case False
    with Suc.prems have "E \<le> E'" by simp
    from Suc.IH[OF this] obtain new where
      n: "log_lines (fold (train_epoch ev) [0..<E'] s0) =
          log_lines (fold (train_epoch ev) [0..<E] s0) @ new" by (elim exE)
    from train_epoch_facts(2)[where ev = ev and e = E' and s = "fold (train_epoch ev) [0..<E'] s0"]
    obtain new' where n':
      "log_lines (train_epoch ev E' (fold (train_epoch ev) [0..<E'] s0)) =
         log_lines (fold (train_epoch ev) [0..<E'] s0) @ new'" by (elim exE conjE)
    have "log_lines (fold (train_epoch ev) [0..<Suc E'] s0) =
          log_lines (fold (train_epoch ev) [0..<E] s0) @ (new @ new')"
      unfolding epochs_Suc n' n by simp
    then show ?thesis by (rule exI)
  qed
qed

lemma epochs_log_file:
  assumes "log_path s0 \<noteq> opt_file" "\<forall>e. log_path s0 \<noteq> model_file e"
    "map_of (files s0) (log_path s0) = Some (LogText (log_lines s0))"
  shows "map_of (files (fold (train_epoch ev) [0..<E] s0)) (log_path s0) =
           Some (LogText (log_lines (fold (train_epoch ev) [0..<E] s0)))"
proof (cases E)
  case 0
  then show ?thesis using assms(3) by simp
next
  case (Suc k)
  let ?s = "fold (train_epoch ev) [0..<k] s0"
  have "log_path ?s = log_path s0" by (rule epochs_log_path)
  with train_epoch_facts(6)[where ev = ev and e = k and s = ?s] assms(1,2) show ?thesis unfolding Suc by simp
qed

lemma epochs_other_files:
  assumes "p \<noteq> log_path s0" "p \<noteq> opt_file" "\<forall>e < E. p \<noteq> model_file e"
  shows "map_of (files (fold (train_epoch ev) [0..<E] s0)) p = map_of (files s0) p"
  using assms(3)
proof (induction E)
  case 0
  then show ?case by simp
next
  case (Suc E)
  let ?s = "fold (train_epoch ev) [0..<E] s0"
  have "map_of (files (train_epoch ev E ?s)) p = map_of (files ?s) p"
    using assms(1,2) Suc.prems by (intro train_epoch_facts(5)) (simp_all add: epochs_log_path)
  with Suc show ?case by simp
qed

lemma epochs_model_files:
  assumes "\<forall>e. log_path s0 \<noteq> model_file e" "e < E"
  shows "map_of (files (fold (train_epoch ev) [0..<E] s0)) (model_file e) =
           Some (ModelState (model_params (fold (train_epoch ev) [0..<Suc e] s0)))"
  using assms(2)
proof (induction E)
  case 0
  then show ?case by simp
next
  case (Suc E)
  let ?s = "fold (train_epoch ev) [0..<E] s0"
  show ?case
  proof (cases "e = E")
    case True
    then show ?thesis using train_epoch_facts(3)[where ev = ev and e = E and s = ?s] by simp
  next
    case False
    with Suc.prems have lt: "e < E" by simp
    have "model_file e \<noteq> model_file E" using False model_file_inj by blast
    moreover have "model_file e \<noteq> log_path ?s" using assms(1) by (metis epochs_log_path)
    ultimately have "map_of (files (train_epoch ev E ?s)) (model_file e) =
        map_of (files ?s) (model_file e)"
      using model_file_not_opt_file[of e] by (intro train_epoch_facts(5)) simp_all
    with Suc.IH[OF lt] show ?thesis by simp
  qed
qed

lemma epochs_opt_file:
  "0 < E \<Longrightarrow> map_of (files (fold (train_epoch ev) [0..<E] s0)) opt_file =
     Some (OptState (opt_state (fold (train_epoch ev) [0..<E] s0)))"
  by (cases E) (simp_all add: train_epoch_facts(4))

section \<open>Checkpoints, the log file, the schedule of evaluations\<close>

text \<open>
  Claim C5, as stated, fails: the optimizer state is saved under the one name
  \<open>opt.pth\<close> in every epoch. After two epochs in an empty directory there are two
  model snapshots and a single optimizer snapshot, the one of the second epoch.
\<close>

theorem checkpoint_pairs_counterexample:
  "map_sum id files (main_epochs toy_env ''log.txt'' None None [] 2) =
     Inr [(''log.txt'', LogText [TEST (- 1) 0 0, TRAIN 0 0 1 1, TRAIN 0 1 2 2,
                                 TEST 0 3 3, TRAIN 1 0 4 1, TRAIN 1 1 5 2]),
          (''model_0.pth'', ModelState 3), (''opt.pth'', OptState 4),
          (''model_1.pth'', ModelState 6)]"
  by (simp add: main_epochs_def main_startup_def toy_env_def train_epoch_def train_step_def
      torch_save_def log_write_def deque_append_def model_file_def opt_file_def str_nat.simps
      digit_def upt_rec enumerate_eq_zip Let_def)

text \<open>
  Claim C5, amended. After \<open>E\<close> completed epochs of \<open>main\<close> (with a log path that
  is no checkpoint name) there is one model snapshot per epoch, \<open>model_<e>.pth\<close> for
  \<open>e < E\<close>, holding the parameters as they were when epoch \<open>e\<close> completed; for
  \<open>E > 0\<close> there is one optimizer snapshot, \<open>opt.pth\<close>, holding the optimizer state
  after the last completed epoch; no other file but the log is touched; and the
  model file names of different epochs differ from each other and from \<open>opt.pth\<close>.
\<close>

theorem checkpoints_after_epochs:
  assumes run: "main_epochs ev path lm lo fs E = Inr s"
    and p1: "path \<noteq> opt_file" and p2: "\<forall>e. path \<noteq> model_file e"
  shows "(\<forall>e < E. \<exists>s'. main_epochs ev path lm lo fs (Suc e) = Inr s' \<and>
            map_of (files s) (model_file e) = Some (ModelState (model_params s'))) \<and>
         (0 < E \<longrightarrow> map_of (files s) opt_file = Some (OptState (opt_state s))) \<and>
         (\<forall>p. p \<noteq> path \<and> p \<noteq> opt_file \<and> (\<forall>e < E. p \<noteq> model_file e) \<longrightarrow>
            map_of (files s) p = map_of fs p) \<and>
         (\<forall>e e'. model_file e = model_file e' \<longrightarrow> e = e') \<and>
         (\<forall>e. model_file e \<noteq> opt_file)"
proof -
  from run obtain s0 where st: "main_startup ev path lm lo fs = Inr s0"
    and s: "s = fold (train_epoch ev) [0..<E] s0"
    unfolding main_epochs_Inr by blast
  note sf = main_startup_facts[OF st]
  have a: "\<forall>e < E. \<exists>s'. main_epochs ev path lm lo fs (Suc e) = Inr s' \<and>
            map_of (files s) (model_file e) = Some (ModelState (model_params s'))"
  proof (intro allI impI)
    fix e assume e: "e < E"
    have "map_of (files s) (model_file e) =
        Some (ModelState (model_params (fold (train_epoch ev) [0..<Suc e] s0)))"
      unfolding s using p2 e by (intro epochs_model_files) (simp_all add: sf)
    with main_epochs_startup[OF st, of "Suc e"]
    show "\<exists>s'. main_epochs ev path lm lo fs (Suc e) = Inr s' \<and>
            map_of (files s) (model_file e) = Some (ModelState (model_params s'))"
      by blast
  qed
  have b: "0 < E \<longrightarrow> map_of (files s) opt_file = Some (OptState (opt_state s))"
    unfolding s by (simp add: epochs_opt_file)
  have c: "\<forall>p. p \<noteq> path \<and> p \<noteq> opt_file \<and> (\<forall>e < E. p \<noteq> model_file e) \<longrightarrow>
            map_of (files s) p = map_of fs p"
  proof (intro allI impI)
    fix p assume p: "p \<noteq> path \<and> p \<noteq> opt_file \<and> (\<forall>e < E. p \<noteq> model_file e)"
    then have "map_of (files s) p = map_of (files s0) p"
      unfolding s by (intro epochs_other_files) (simp_all add: sf)
    with p show "map_of (files s) p = map_of fs p" by (simp add: sf)
  qed
  have d: "\<forall>e e'. model_file e = model_file e' \<longrightarrow> e = e'" using model_file_inj by blast
  have e: "\<forall>e. model_file e \<noteq> opt_file" using model_file_not_opt_file by blast
  show ?thesis by (intro conjI) (rule a b c d e)+
qed

theorem checkpoints_after_epochs_witness:
  "''log.txt'' \<noteq> opt_file \<and>
   (\<exists>s. main_epochs toy_env ''log.txt'' None None [] 2 = Inr s \<and>
      map_of (files s) (model_file 0) = Some (ModelState 3) \<and>
      map_of (files s) (model_file 1) = Some (ModelState 6) \<and>
      map_of (files s) opt_file = Some (OptState 4) \<and>
      map_of (files s) ''opt_0.pth'' = None)"
proof -
  have p1: "''log.txt'' \<noteq> opt_file" by (simp add: opt_file_def)
  have p2: "\<forall>e. ''log.txt'' \<noteq> model_file e" by (simp add: model_file_def)
  have ev: "main_epochs toy_env ''log.txt'' None None [] k =
      Inr (fold (train_epoch toy_env) [0..<k]
        \<lparr>files = [(''log.txt'', LogText [])], model_params = 0, opt_state = 0,
         log_path = ''log.txt'', log_lines = [], losses = [], stdout = [], clock = 0\<rparr>)" for k
    by (simp add: main_epochs_def main_startup_def toy_env_def)
  obtain s where s: "main_epochs toy_env ''log.txt'' None None [] 2 = Inr s" using ev by blast
  note th = checkpoints_after_epochs[OF s p1 p2]
  let ?init = "\<lparr>files = [(''log.txt'', LogText [])], model_params = 0, opt_state = 0,
         log_path = ''log.txt'', log_lines = [], losses = [], stdout = [], clock = 0\<rparr>
         :: (nat, nat) train_state"
  have v1: "model_params (fold (train_epoch toy_env) [0..<Suc 0] ?init) = 3"
    by (simp add: toy_env_def train_epoch_def train_step_def torch_save_def log_write_def
        deque_append_def enumerate_eq_zip upt_rec Let_def)
  have v2: "model_params (fold (train_epoch toy_env) [0..<Suc 1] ?init) = 6 \<and>
      opt_state (fold (train_epoch toy_env) [0..<Suc 1] ?init) = 4"
    by (simp add: toy_env_def train_epoch_def train_step_def torch_save_def log_write_def
        deque_append_def enumerate_eq_zip upt_rec Let_def)
  have m1: "model_params s1 = 3" if "main_epochs toy_env ''log.txt'' None None [] (Suc 0) = Inr s1" for s1
    using that v1 unfolding ev by auto
  have m2: "model_params s2 = 6 \<and> opt_state s2 = 4"
    if "main_epochs toy_env ''log.txt'' None None [] (Suc 1) = Inr s2" for s2
    using that v2 unfolding ev by auto
  from th have "\<exists>s'. main_epochs toy_env ''log.txt'' None None [] (Suc 0) = Inr s' \<and>
            map_of (files s) (model_file 0) = Some (ModelState (model_params s'))" by simp
  with m1 have a: "map_of (files s) (model_file 0) = Some (ModelState 3)" by auto
  from th have "\<exists>s'. main_epochs toy_env ''log.txt'' None None [] (Suc 1) = Inr s' \<and>
            map_of (files s) (model_file 1) = Some (ModelState (model_params s'))" by simp
  with m2 have b: "map_of (files s) (model_file 1) = Some (ModelState 6)" by auto
  from s m2 have "opt_state s = 4" by (simp add: numeral_2_eq_2)
  with th have c: "map_of (files s) opt_file = Some (OptState 4)" by simp
  have n: "''opt_0.pth'' \<noteq> ''log.txt'' \<and> ''opt_0.pth'' \<noteq> opt_file \<and>
      (\<forall>e < 2. ''opt_0.pth'' \<noteq> model_file e)"
    by (simp add: opt_file_def model_file_def)
  with th have d: "map_of (files s) ''opt_0.pth'' = None" by simp
  from p1 s a b c d show ?thesis by blast
qed

text \<open>
  Claim C10. Whenever the start of \<open>main\<close> succeeds (with or without loading a model
  and an optimizer), the file at the log path is empty, whatever it held before. From
  then on the log only grows: the lines after \<open>E\<close> epochs are a prefix of the lines
  after any later epoch, every training step appends exactly one TRAIN line, and (for a
  log path that is no checkpoint name) the file holds exactly the lines written in this
  run.
\<close>

theorem log_truncated_then_appended:
  assumes st: "main_startup ev path lm lo fs = Inr s0"
  shows "map_of (files s0) path = Some (LogText []) \<and> log_lines s0 = [] \<and>
         (\<forall>E. main_epochs ev path lm lo fs E = Inr (fold (train_epoch ev) [0..<E] s0)) \<and>
         (\<forall>E E'. E \<le> E' \<longrightarrow>
            (\<exists>new. log_lines (fold (train_epoch ev) [0..<E'] s0) =
                    log_lines (fold (train_epoch ev) [0..<E] s0) @ new)) \<and>
         (\<forall>e ib s. \<exists>t loss. log_lines (train_step ev e ib s) = log_lines s @ [TRAIN e (fst ib) t loss]) \<and>
         (path \<noteq> opt_file \<and> (\<forall>e. path \<noteq> model_file e) \<longrightarrow>
            (\<forall>E. map_of (files (fold (train_epoch ev) [0..<E] s0)) path =
                  Some (LogText (log_lines (fold (train_epoch ev) [0..<E] s0)))))"
proof -
  note sf = main_startup_facts[OF st]
  have a: "map_of (files s0) path = Some (LogText [])" by (simp add: sf)
  have b: "log_lines s0 = []" by (rule sf)
  have c: "\<forall>E. main_epochs ev path lm lo fs E = Inr (fold (train_epoch ev) [0..<E] s0)"
    using main_epochs_startup[OF st] by blast
  have d: "\<forall>E E'. E \<le> E' \<longrightarrow>
            (\<exists>new. log_lines (fold (train_epoch ev) [0..<E'] s0) =
                    log_lines (fold (train_epoch ev) [0..<E] s0) @ new)"
    using epochs_log_grows by blast
  have e: "\<forall>e ib s. \<exists>t loss. log_lines (train_step ev e ib s) = log_lines s @ [TRAIN e (fst ib) t loss]"
    using train_step_facts(2) by blast
  have f: "path \<noteq> opt_file \<and> (\<forall>e. path \<noteq> model_file e) \<longrightarrow>
            (\<forall>E. map_of (files (fold (train_epoch ev) [0..<E] s0)) path =
                  Some (LogText (log_lines (fold (train_epoch ev) [0..<E] s0))))"
  proof (intro impI allI)
    fix E assume p: "path \<noteq> opt_file \<and> (\<forall>e. path \<noteq> model_file e)"
    have "map_of (files (fold (train_epoch ev) [0..<E] s0)) (log_path s0) =
        Some (LogText (log_lines (fold (train_epoch ev) [0..<E] s0)))"
      using p by (intro epochs_log_file) (simp_all add: sf)
    then show "map_of (files (fold (train_epoch ev) [0..<E] s0)) path =
        Some (LogText (log_lines (fold (train_epoch ev) [0..<E] s0)))"
      by (simp add: sf)
  qed
  show ?thesis by (intro conjI) (rule a b c d e f)+
qed

theorem log_truncated_then_appended_witness:
  "map_of old_files ''log.txt'' = Some (LogText [TEST (- 1) 0 0, TRAIN 0 0 1 1]) \<and>
   (\<exists>s0. main_startup toy_env ''log.txt'' (Some ''model_0.pth'') (Some ''opt.pth'') old_files
             = Inr s0 \<and>
      map_of (files s0) ''log.txt'' = Some (LogText []) \<and>
      map_of (files (fold (train_epoch toy_env) [0..<1] s0)) ''log.txt'' =
        Some (LogText [TEST (- 1) 0 3, TRAIN 0 0 1 1, TRAIN 0 1 2 2]))"
proof -
  let ?s0 = "\<lparr>files = [(''log.txt'', LogText []), (''model_0.pth'', ModelState 3),
                      (''opt.pth'', OptState 2)],
             model_params = 3, opt_state = 2, log_path = ''log.txt'', log_lines = [],
             losses = [], stdout = [], clock = 0\<rparr> :: (nat, nat) train_state"
  have old: "map_of old_files ''log.txt'' = Some (LogText [TEST (- 1) 0 0, TRAIN 0 0 1 1])"
    by (simp add: old_files_def)
  have st: "main_startup toy_env ''log.txt'' (Some ''model_0.pth'') (Some ''opt.pth'') old_files
      = Inr ?s0"
    by (simp add: main_startup_def toy_env_def old_files_def truthy_def torch_load_def
        model_load_state_dict_def opt_load_state_dict_def)
  note th = log_truncated_then_appended[OF st]
  have p: "''log.txt'' \<noteq> opt_file \<and> (\<forall>e. ''log.txt'' \<noteq> model_file e)"
    by (simp add: opt_file_def model_file_def)
  have l: "log_lines (fold (train_epoch toy_env) [0..<1] ?s0) =
      [TEST (- 1) 0 3, TRAIN 0 0 1 1, TRAIN 0 1 2 2]"
    by (simp add: toy_env_def train_epoch_def train_step_def torch_save_def log_write_def
        deque_append_def enumerate_eq_zip upt_rec Let_def)
  from th have "map_of (files ?s0) ''log.txt'' = Some (LogText [])" by blast
  moreover from th p have "map_of (files (fold (train_epoch toy_env) [0..<1] ?s0)) ''log.txt'' =
      Some (LogText (log_lines (fold (train_epoch toy_env) [0..<1] ?s0)))" by blast
  ultimately show ?thesis using old st unfolding l by blast
qed

text \<open>The calls of \<open>GPTTrainingContext\<close>.\<close>


lemma evaluate_trace: "trace (evaluate s) = trace s @ evaluation_calls"
  by (simp add: evaluate_def evaluation_calls_def)

lemma gpt_batch_trace:
  assumes "eval_freq ctx \<noteq> 0"
  shows "\<exists>s'. gpt_batch ctx len (i, b) s = Inr s' \<and>
           trace s' = trace s @ batch_calls (eval_freq ctx) len i"
  using assms
  by (cases "train_fn ctx (gpt_model s) (gpt_opt s) b")
     (auto simp: gpt_batch_def Let_def batch_calls_def evaluate_trace)

lemma gpt_batches_trace:
  assumes "eval_freq ctx \<noteq> 0"
  shows "\<exists>s'. for_each (enumerate i bs) (gpt_batch ctx len) s = Inr s' \<and>
           trace s' = trace s @ concat (map (batch_calls (eval_freq ctx) len) [i..<i + length bs])"
proof (induction bs arbitrary: i s)
  case Nil
  then show ?case by simp
next
  case (Cons b bs)
  from gpt_batch_trace[OF assms, of len i b s] obtain s1 where
    s1: "gpt_batch ctx len (i, b) s = Inr s1"
    "trace s1 = trace s @ batch_calls (eval_freq ctx) len i" by (elim exE conjE)
  from Cons.IH[of "Suc i" s1] obtain s' where
    s': "for_each (enumerate (Suc i) bs) (gpt_batch ctx len) s1 = Inr s'"
    "trace s' = trace s1 @
       concat (map (batch_calls (eval_freq ctx) len) [Suc i..<Suc i + length bs])"
    by (elim exE conjE)
  have u: "[i..<i + length (b # bs)] = i # [Suc i..<Suc i + length bs]"
    by (simp add: upt_conv_Cons del: upt_Suc)
  have a: "for_each (enumerate i (b # bs)) (gpt_batch ctx len) s = Inr s'"
    using s1(1) s'(1) by simp
  have b: "trace s' = trace s @
      concat (map (batch_calls (eval_freq ctx) len) [i..<i + length (b # bs)])"
    unfolding u s'(2) s1(2) by simp
  show ?case by (rule exI[of _ s'], rule conjI[OF a b])
qed

lemma gpt_epoch_trace:
  assumes "eval_freq ctx \<noteq> 0"
  shows "\<exists>s'. gpt_epoch ctx e s = Inr s' \<and>
           trace s' = trace s @ epoch_calls (eval_freq ctx) (length (train_dl ctx e))"
proof -
  let ?s1 = "evaluate (s\<lparr>trace := trace s @ [LoggerEpoch]\<rparr>)"
  from gpt_batches_trace[OF assms, of 0 "train_dl ctx e" "length (train_dl ctx e)" ?s1]
  obtain s2 where s2:
    "for_each (enumerate 0 (train_dl ctx e)) (gpt_batch ctx (length (train_dl ctx e))) ?s1 = Inr s2"
    "trace s2 = trace ?s1 @ concat (map (batch_calls (eval_freq ctx) (length (train_dl ctx e)))
       [0..<0 + length (train_dl ctx e)])"
    by (elim exE conjE)
  have a: "gpt_epoch ctx e s = Inr (evaluate s2)"
    unfolding gpt_epoch_def Let_def s2(1) by simp
  have b: "trace (evaluate s2) = trace s @ epoch_calls (eval_freq ctx) (length (train_dl ctx e))"
    unfolding evaluate_trace s2(2) epoch_calls_def by simp
  show ?thesis by (rule exI[of _ "evaluate s2"], rule conjI[OF a b])
qed

lemma gpt_epochs_trace:
  assumes "eval_freq ctx \<noteq> 0"
  shows "\<exists>s'. for_each [0..<n] (gpt_epoch ctx) s = Inr s' \<and>
           trace s' = trace s @
             concat (map (\<lambda>e. epoch_calls (eval_freq ctx) (length (train_dl ctx e))) [0..<n])"
proof (induction n)
  case 0
  then show ?case by simp
next
  case (Suc n)
  from Suc obtain s1 where s1: "for_each [0..<n] (gpt_epoch ctx) s = Inr s1"
    "trace s1 = trace s @
       concat (map (\<lambda>e. epoch_calls (eval_freq ctx) (length (train_dl ctx e))) [0..<n])"
    by (elim exE conjE)
  from gpt_epoch_trace[OF assms, of n s1] obtain s' where s':
    "gpt_epoch ctx n s1 = Inr s'"
    "trace s' = trace s1 @ epoch_calls (eval_freq ctx) (length (train_dl ctx n))"
    by (elim exE conjE)
  have a: "for_each [0..<Suc n] (gpt_epoch ctx) s = Inr s'"
    using s1(1) s'(1) by (simp add: for_each_append)
  have b: "trace s' = trace s @
      concat (map (\<lambda>e. epoch_calls (eval_freq ctx) (length (train_dl ctx e))) [0..<Suc n])"
    unfolding s'(2) s1(2) by simp
  show ?case by (rule exI[of _ s'], rule conjI[OF a b])
qed

lemma gpt_zero_freq:
  assumes "eval_freq ctx = 0" "0 < epochs ctx" "train_dl ctx 0 \<noteq> []"
  shows "gpt_call_ctx ctx mdl opt = Inl ZeroDivisionError"
proof -
  from assms(2) obtain m where m: "nat (epochs ctx) = Suc m" by (cases "nat (epochs ctx)") auto
  from assms(3) obtain b bs where bs: "train_dl ctx 0 = b # bs" by (cases "train_dl ctx 0") auto
  have "gpt_batch ctx len (0, b) s = Inl ZeroDivisionError" for len s
    using assms(1)
    by (cases "train_fn ctx (gpt_model s) (gpt_opt s) b") (simp add: gpt_batch_def Let_def)
  then have "gpt_epoch ctx 0 s = Inl ZeroDivisionError" for s
    by (simp add: gpt_epoch_def Let_def bs)
  then show ?thesis
    unfolding gpt_call_ctx_def m by (simp add: upt_rec[of 0])
qed

text \<open>
  Claim C6, as stated, fails: the batch index 0 is divisible by \<open>eval_freq\<close>, but the
  code asks for \<open>batch_idx > 0\<close>, so the first training step of an epoch is followed by
  the second without an evaluation in between (\<open>eval_freq = 2\<close>, three batches).
\<close>

theorem evaluation_schedule_counterexample:
  "map_sum id trace (gpt_call_ctx toy_ctx 0 0) =
     Inr [LoggerEpoch, EvalFn, LoggerTestOutput, LoggerSaveCheckpoint,
          TrainFn 0, LoggerLoss 0 3, TrainFn 1, LoggerLoss 1 3,
          TrainFn 2, LoggerLoss 2 3, EvalFn, LoggerTestOutput, LoggerSaveCheckpoint,
          EvalFn, LoggerTestOutput, LoggerSaveCheckpoint]"
  by (simp add: gpt_call_ctx_def gpt_epoch_def gpt_batch_def evaluate_def toy_ctx_def Let_def
      upt_rec enumerate_eq_zip)

text \<open>
  Claim C6, amended. For \<open>eval_freq \<noteq> 0\<close>, a run of \<open>GPTTrainingContext\<close> returns
  and its calls are, epoch after epoch, the schedule \<open>epoch_calls\<close>: an evaluation at
  the start of the epoch, after every training step whose batch index is positive and
  divisible by \<open>eval_freq\<close> (before the next training step), after no other training
  step, and once more at the end of the epoch. For \<open>eval_freq = 0\<close> the first training
  step raises ZeroDivisionError. The loop of \<open>main\<close> in train.py has no \<open>eval_freq\<close>:
  every epoch writes one TEST line, at its start, and then one TRAIN line per batch.
\<close>

theorem evaluation_schedule:
  "(eval_freq ctx \<noteq> 0 \<longrightarrow>
      (\<exists>s. gpt_call_ctx ctx mdl opt = Inr s \<and>
         trace s = concat (map (\<lambda>e. epoch_calls (eval_freq ctx) (length (train_dl ctx e)))
                     [0..<nat (epochs ctx)]))) \<and>
   (eval_freq ctx = 0 \<and> 0 < epochs ctx \<and> train_dl ctx 0 \<noteq> [] \<longrightarrow>
      gpt_call_ctx ctx mdl opt = Inl ZeroDivisionError) \<and>
   (\<forall>s. main_epochs ev path lm lo fs E = Inr s \<longrightarrow>
      map kind (log_lines s) =
        concat (map (\<lambda>e. TestLine (int e - 1) # map (TrainLine e) [0..<length (dataloader ev e)])
          [0..<E]))"
proof -
  have a: "eval_freq ctx \<noteq> 0 \<longrightarrow>
      (\<exists>s. gpt_call_ctx ctx mdl opt = Inr s \<and>
         trace s = concat (map (\<lambda>e. epoch_calls (eval_freq ctx) (length (train_dl ctx e)))
                     [0..<nat (epochs ctx)]))"
  proof
    assume f: "eval_freq ctx \<noteq> 0"
    from gpt_epochs_trace[OF f, of "nat (epochs ctx)"
        "\<lparr>gpt_model = mdl, gpt_opt = opt, trace = []\<rparr>"]
    show "\<exists>s. gpt_call_ctx ctx mdl opt = Inr s \<and>
         trace s = concat (map (\<lambda>e. epoch_calls (eval_freq ctx) (length (train_dl ctx e)))
                     [0..<nat (epochs ctx)])"
      unfolding gpt_call_ctx_def by simp
  qed
  have b: "eval_freq ctx = 0 \<and> 0 < epochs ctx \<and> train_dl ctx 0 \<noteq> [] \<longrightarrow>
      gpt_call_ctx ctx mdl opt = Inl ZeroDivisionError"
  proof
    assume z: "eval_freq ctx = 0 \<and> 0 < epochs ctx \<and> train_dl ctx 0 \<noteq> []"
    show "gpt_call_ctx ctx mdl opt = Inl ZeroDivisionError"
      by (rule gpt_zero_freq) (use z in simp_all)
  qed
  have c: "\<forall>s. main_epochs ev path lm lo fs E = Inr s \<longrightarrow>
      map kind (log_lines s) =
        concat (map (\<lambda>e. TestLine (int e - 1) # map (TrainLine e) [0..<length (dataloader ev e)])
          [0..<E])"
  proof (intro allI impI)
    fix s assume "main_epochs ev path lm lo fs E = Inr s"
    then obtain s0 where st: "main_startup ev path lm lo fs = Inr s0"
      and s: "s = fold (train_epoch ev) [0..<E] s0"
      unfolding main_epochs_Inr by blast
    from epochs_log_kinds[of ev E s0] obtain new where
      n: "log_lines (fold (train_epoch ev) [0..<E] s0) = log_lines s0 @ new"
      "map kind new =
        concat (map (\<lambda>e. TestLine (int e - 1) # map (TrainLine e) [0..<length (dataloader ev e)])
          [0..<E])" by (elim exE conjE)
    have "log_lines s = new" unfolding s n(1) by (simp add: main_startup_facts(2)[OF st])
    with n(2) show "map kind (log_lines s) =
        concat (map (\<lambda>e. TestLine (int e - 1) # map (TrainLine e) [0..<length (dataloader ev e)])
          [0..<E])" by simp
  qed
  show ?thesis by (intro conjI) (rule a b c)+
qed

theorem evaluation_schedule_witness:
  "eval_freq toy_ctx \<noteq> 0 \<and>
   (\<exists>s. gpt_call_ctx toy_ctx 0 0 = Inr s \<and>
      trace s = [LoggerEpoch, EvalFn, LoggerTestOutput, LoggerSaveCheckpoint,
          TrainFn 0, LoggerLoss 0 3, TrainFn 1, LoggerLoss 1 3,
          TrainFn 2, LoggerLoss 2 3, EvalFn, LoggerTestOutput, LoggerSaveCheckpoint,
          EvalFn, LoggerTestOutput, LoggerSaveCheckpoint]) \<and>
   gpt_call_ctx (toy_ctx\<lparr>eval_freq := 0\<rparr>) 0 0 = Inl ZeroDivisionError \<and>
   (\<exists>s. main_epochs toy_env ''log.txt'' None None [] 2 = Inr s \<and>
      map kind (log_lines s) =
        [TestLine (- 1), TrainLine 0 0, TrainLine 0 1, TestLine 0, TrainLine 1 0, TrainLine 1 1])"
proof -
  have f: "eval_freq toy_ctx \<noteq> 0" by (simp add: toy_ctx_def)
  have sched: "concat (map (\<lambda>e. epoch_calls (eval_freq toy_ctx) (length (train_dl toy_ctx e)))
                     [0..<nat (epochs toy_ctx)]) =
      [LoggerEpoch, EvalFn, LoggerTestOutput, LoggerSaveCheckpoint,
          TrainFn 0, LoggerLoss 0 3, TrainFn 1, LoggerLoss 1 3,
          TrainFn 2, LoggerLoss 2 3, EvalFn, LoggerTestOutput, LoggerSaveCheckpoint,
          EvalFn, LoggerTestOutput, LoggerSaveCheckpoint]"
    by (simp add: toy_ctx_def epoch_calls_def batch_calls_def evaluation_calls_def upt_rec)
  from evaluation_schedule[of toy_ctx 0 0] f
  have a: "\<exists>s. gpt_call_ctx toy_ctx 0 0 = Inr s \<and>
      trace s = [LoggerEpoch, EvalFn, LoggerTestOutput, LoggerSaveCheckpoint,
          TrainFn 0, LoggerLoss 0 3, TrainFn 1, LoggerLoss 1 3,
          TrainFn 2, LoggerLoss 2 3, EvalFn, LoggerTestOutput, LoggerSaveCheckpoint,
          EvalFn, LoggerTestOutput, LoggerSaveCheckpoint]"
    unfolding sched by blast
  have "eval_freq (toy_ctx\<lparr>eval_freq := 0\<rparr>) = 0 \<and> 0 < epochs (toy_ctx\<lparr>eval_freq := 0\<rparr>) \<and>
      train_dl (toy_ctx\<lparr>eval_freq := 0\<rparr>) 0 \<noteq> []"
    by (simp add: toy_ctx_def)
  with evaluation_schedule[of "toy_ctx\<lparr>eval_freq := 0\<rparr>" 0 0]
  have b: "gpt_call_ctx (toy_ctx\<lparr>eval_freq := 0\<rparr>) 0 0 = Inl ZeroDivisionError" by blast
  obtain s where s: "main_epochs toy_env ''log.txt'' None None [] 2 = Inr s"
    by (simp add: main_epochs_def main_startup_def toy_env_def)
  have k: "concat (map (\<lambda>e. TestLine (int e - 1) #
        map (TrainLine e) [0..<length (dataloader toy_env e)]) [0..<2]) =
      [TestLine (- 1), TrainLine 0 0, TrainLine 0 1, TestLine 0, TrainLine 1 0, TrainLine 1 1]"
    by (simp add: toy_env_def upt_rec)
  from evaluation_schedule[of toy_ctx 0 0 toy_env "''log.txt''" None None "[]" 2] s
  have km: "map kind (log_lines s) =
      [TestLine (- 1), TrainLine 0 0, TrainLine 0 1, TestLine 0, TrainLine 1 0, TrainLine 1 1]"
    unfolding k by blast
  have d: "\<exists>s. main_epochs toy_env ''log.txt'' None None [] 2 = Inr s \<and>
      map kind (log_lines s) =
        [TestLine (- 1), TrainLine 0 0, TrainLine 0 1, TestLine 0, TrainLine 1 0, TrainLine 1 1]"
    by (rule exI[of _ s], rule conjI[OF s km])
  show ?thesis by (intro conjI) (rule f a b d)+
qed

end
